theory Spec2Isabelle
  imports Main "HOL-Library.Sublist" "HOL-Library.Char_ord"
begin

section \<open>JavaScript strings\<close>

text \<open>
  A JavaScript string is modelled as a \<^typ>\<open>string\<close>; each \<^typ>\<open>char\<close> stands for one
  UTF-16 code unit in the range 0..255.  The built-in string methods that the generators
  call are written out here, following ECMAScript.
\<close>

definition startsWith :: "string \<Rightarrow> string \<Rightarrow> bool" where
  "startsWith s p = (take (length p) s = p)"

definition endsWith :: "string \<Rightarrow> string \<Rightarrow> bool" where
  "endsWith s p = (length p \<le> length s \<and> drop (length s - length p) s = p)"

text \<open>\<open>s.includes(p)\<close>: \<open>p\<close> occurs in \<open>s\<close> at some position.\<close>

fun str_includes :: "string \<Rightarrow> string \<Rightarrow> bool" where
  "str_includes [] p = (p = [])"
| "str_includes (c # cs) p = (startsWith (c # cs) p \<or> str_includes cs p)"

text \<open>\<open>s.split(d)\<close> for a one-character separator: the pieces between the separators,
  empty pieces included; the empty string splits into one empty piece.\<close>

fun split_on :: "char \<Rightarrow> string \<Rightarrow> string list" where
  "split_on d [] = [[]]"
| "split_on d (c # cs) =
     (if c = d then [] # split_on d cs
      else (case split_on d cs of [] \<Rightarrow> [[c]] | p # ps \<Rightarrow> (c # p) # ps))"

text \<open>\<open>parts.join(d)\<close>.\<close>

fun join_with :: "string \<Rightarrow> string list \<Rightarrow> string" where
  "join_with d [] = []"
| "join_with d [p] = p"
| "join_with d (p # q # ps) = p @ d @ join_with d (q # ps)"

text \<open>The first occurrence of \<open>p\<close> in \<open>s\<close>: the text before it and the text after it.\<close>

fun find_first :: "string \<Rightarrow> string \<Rightarrow> (string \<times> string) option" where
  "find_first [] p = (if p = [] then Some ([], []) else None)"
| "find_first (c # cs) p =
     (if startsWith (c # cs) p then Some ([], drop (length p) (c # cs))
      else (case find_first cs p of
              None \<Rightarrow> None
            | Some (pre, post) \<Rightarrow> Some (c # pre, post)))"

text \<open>
  The replacement text of \<open>s.replace(pattern, replacement)\<close> when the pattern is a string
  (ECMAScript GetSubstitution with no captures): \<open>$$\<close> stands for a dollar sign, \<open>$&\<close> for
  the matched text, \<open>$`\<close> for the text before the match and \<open>$'\<close> for the text after it;
  every other character, a dollar sign followed by anything else included, stands for
  itself.
\<close>

fun get_substitution :: "string \<Rightarrow> string \<Rightarrow> string \<Rightarrow> string \<Rightarrow> string" where
  "get_substitution matched pre post [] = []"
| "get_substitution matched pre post [c] = [c]"
| "get_substitution matched pre post (c # d # r) =
     (if c = CHR ''$'' \<and> d = CHR ''$'' then CHR ''$'' # get_substitution matched pre post r
      else if c = CHR ''$'' \<and> d = CHR ''&'' then matched @ get_substitution matched pre post r
      else if c = CHR ''$'' \<and> d = CHR 0x60 then pre @ get_substitution matched pre post r
      else if c = CHR ''$'' \<and> d = CHR 0x27 then post @ get_substitution matched pre post r
      else c # get_substitution matched pre post (d # r))"

text \<open>\<open>s.replace(p, r)\<close> with a string pattern: only the first occurrence is replaced.\<close>

definition str_replace :: "string \<Rightarrow> string \<Rightarrow> string \<Rightarrow> string" where
  "str_replace s p r =
     (case find_first s p of
        None \<Rightarrow> s
      | Some (pre, post) \<Rightarrow> pre @ get_substitution p pre post r @ post)"

text \<open>The class \<open>\s\<close> of regular expressions, which is also what \<open>trim\<close> removes: tab, line
  feed, vertical tab, form feed, carriage return, space and no-break space.\<close>

definition isSpace :: "char \<Rightarrow> bool" where
  "isSpace c = (c = CHR 0x09 \<or> c = CHR 0x0A \<or> c = CHR 0x0B \<or> c = CHR 0x0C \<or> c = CHR 0x0D
                \<or> c = CHR 0x20 \<or> c = CHR 0xA0)"

text \<open>The line terminators, which \<open>.\<close> does not match.\<close>

definition isLineTerminator :: "char \<Rightarrow> bool" where
  "isLineTerminator c = (c = CHR 0x0A \<or> c = CHR 0x0D)"

definition str_trim :: "string \<Rightarrow> string" where
  "str_trim s = rev (dropWhile isSpace (rev (dropWhile isSpace s)))"

section \<open>Path utilities (\<open>utils/path-utilities.ts\<close>)\<close>

text \<open>\<open>path.replace(/\/$/, "")\<close>: one trailing slash is removed.\<close>

definition removeTrailingSlash :: "string \<Rightarrow> string" where
  "removeTrailingSlash p = (if endsWith p ''/'' then butlast p else p)"

text \<open>\<open>.split("/").filter((part) => part !== "")\<close>.\<close>

definition pathParts :: "string \<Rightarrow> string list" where
  "pathParts p = filter (\<lambda>part. part \<noteq> []) (split_on CHR ''/'' p)"

text \<open>The loop \<open>for (i = 0; i < levels && pathParts.length > 0; i++) pathParts.pop()\<close>.\<close>

fun popLevels :: "nat \<Rightarrow> string list \<Rightarrow> string list" where
  "popLevels 0 parts = parts"
| "popLevels (Suc n) parts = (if parts = [] then parts else popLevels n (butlast parts))"

definition getParentPath :: "string \<Rightarrow> nat \<Rightarrow> string" where
  "getParentPath p levels =
     (let parts = popLevels levels (pathParts (removeTrailingSlash p))
      in if parts \<noteq> [] then join_with ''/'' parts @ ''/'' else [])"

text \<open>The loop that counts the common leading segments, by index as the source does.\<close>

function commonLengthLoop :: "string list \<Rightarrow> string list \<Rightarrow> nat \<Rightarrow> nat" where
  "commonLengthLoop fromParts toParts commonLength =
     (if commonLength < length fromParts \<and> commonLength < length toParts
         \<and> fromParts ! commonLength = toParts ! commonLength
      then commonLengthLoop fromParts toParts (Suc commonLength)
      else commonLength)"
  by pat_completeness auto
termination
  by (relation "measure (\<lambda>(fromParts, toParts, commonLength). length fromParts - commonLength)") auto

declare commonLengthLoop.simps [simp del]

definition getRelativePath :: "string \<Rightarrow> string \<Rightarrow> string" where
  "getRelativePath from to =
     (let fromParts = pathParts (removeTrailingSlash from);
          toParts = pathParts to;
          commonLength = commonLengthLoop fromParts toParts 0;
          upLevels = length fromParts - commonLength;
          downPath = drop commonLength toParts;
          relativeParts = replicate upLevels ''..'' @ downPath;
          result = join_with ''/'' relativeParts
      in if startsWith result ''../'' then result else ''./'' @ result)"

text \<open>\<open>s.lastIndexOf(c)\<close>, which is -1 when \<open>c\<close> does not occur.\<close>

definition lastIndexOf :: "string \<Rightarrow> char \<Rightarrow> int" where
  "lastIndexOf s c =
     (if c \<in> set s then int (length s) - 1 - int (length (takeWhile (\<lambda>x. x \<noteq> c) (rev s)))
      else - 1)"

definition calculateRelativeImportPath :: "string \<Rightarrow> string \<Rightarrow> string \<Rightarrow> bool \<Rightarrow> string" where
  "calculateRelativeImportPath modulePath handlerBasePath name flat =
     (let moduleDir = take (nat (lastIndexOf modulePath CHR ''/'' + 1)) modulePath;
          handlerPath = (if flat then handlerBasePath @ name @ ''.handler''
                         else handlerBasePath @ ''handlers/'' @ name @ ''.handler'')
      in getRelativePath moduleDir handlerPath)"


section \<open>Regular expressions\<close>

text \<open>
  The regular expressions of the source are sequences of the following parts: a literal
  text, one character of a class, and a class repeated greedily (\<open>*\<close>, \<open>+\<close>, \<open>?\<close>) or lazily
  (\<open>*?\<close>).  A capture group of the source is one part of the sequence.
\<close>

datatype re =
    Lit string
  | Cls "char \<Rightarrow> bool"
  | Star "char \<Rightarrow> bool"
  | Plus "char \<Rightarrow> bool"
  | Opt "char \<Rightarrow> bool"
  | LazyStar "char \<Rightarrow> bool"

fun strip_prefix :: "string \<Rightarrow> string \<Rightarrow> string option" where
  "strip_prefix [] s = Some s"
| "strip_prefix (p # ps) [] = None"
| "strip_prefix (p # ps) (c # cs) = (if p = c then strip_prefix ps cs else None)"

fun star_greedy :: "(char \<Rightarrow> bool) \<Rightarrow> string \<Rightarrow> string list" where
  "star_greedy P [] = [[]]"
| "star_greedy P (c # cs) = (if P c then star_greedy P cs @ [c # cs] else [c # cs])"

fun star_lazy :: "(char \<Rightarrow> bool) \<Rightarrow> string \<Rightarrow> string list" where
  "star_lazy P [] = [[]]"
| "star_lazy P (c # cs) = (c # cs) # (if P c then star_lazy P cs else [])"

text \<open>
  \<open>rmatch r s\<close> lists what can remain of \<open>s\<close> after \<open>r\<close> has matched at its start, in the
  order in which a backtracking matcher tries the alternatives: a greedy repetition tries
  the longest run first, a lazy one the shortest.
\<close>

fun rmatch :: "re \<Rightarrow> string \<Rightarrow> string list" where
  "rmatch (Lit p) s = (case strip_prefix p s of None \<Rightarrow> [] | Some rest \<Rightarrow> [rest])"
| "rmatch (Cls P) s = (case s of [] \<Rightarrow> [] | c # cs \<Rightarrow> if P c then [cs] else [])"
| "rmatch (Star P) s = star_greedy P s"
| "rmatch (Plus P) s = (case s of [] \<Rightarrow> [] | c # cs \<Rightarrow> if P c then star_greedy P cs else [])"
| "rmatch (Opt P) s = (case s of [] \<Rightarrow> [[]] | c # cs \<Rightarrow> if P c then [cs, c # cs] else [c # cs])"
| "rmatch (LazyStar P) s = star_lazy P s"

text \<open>
  \<open>match_parts rs s\<close>: every way in which the sequence \<open>rs\<close> matches at the start of \<open>s\<close>,
  in backtracking order, each as the texts matched by the parts and the text that remains.
\<close>

fun match_parts :: "re list \<Rightarrow> string \<Rightarrow> (string list \<times> string) list" where
  "match_parts [] s = [([], s)]"
| "match_parts (r # rs) s =
     concat (map (\<lambda>rest. map (\<lambda>(ms, fin). (take (length s - length rest) s # ms, fin))
                               (match_parts rs rest))
                 (rmatch r s))"

text \<open>The first match of a regular expression in \<open>s\<close> (the leftmost start, and there the first
  way in backtracking order): the text before the match, the texts of the parts, and the
  text after the match.\<close>

fun re_search :: "re list \<Rightarrow> string \<Rightarrow> (string \<times> string list \<times> string) option" where
  "re_search rs [] =
     (case match_parts rs [] of [] \<Rightarrow> None | (ms, fin) # _ \<Rightarrow> Some ([], ms, fin))"
| "re_search rs (c # cs) =
     (case match_parts rs (c # cs) of
        (ms, fin) # _ \<Rightarrow> Some ([], ms, fin)
      | [] \<Rightarrow> (case re_search rs cs of
                 None \<Rightarrow> None
               | Some (pre, ms, fin) \<Rightarrow> Some (c # pre, ms, fin)))"

text \<open>\<open>regex.test(s)\<close>.\<close>

definition re_test :: "re list \<Rightarrow> string \<Rightarrow> bool" where
  "re_test rs s = (re_search rs s \<noteq> None)"

text \<open>
  \<open>s.match(regex)\<close> with the \<open>g\<close> flag: all matches from left to right, the search going on
  where the last match ended (one character further after an empty match).  The counter
  \<open>skip\<close> is the number of characters still covered by the last match.
\<close>

fun match_all :: "re list \<Rightarrow> nat \<Rightarrow> string \<Rightarrow> string list" where
  "match_all rs skip [] =
     (if skip = 0 \<and> match_parts rs [] \<noteq> [] then [[]] else [])"
| "match_all rs skip (c # cs) =
     (if 0 < skip then match_all rs (skip - 1) cs
      else (case match_parts rs (c # cs) of
              [] \<Rightarrow> match_all rs 0 cs
            | (ms, fin) # _ \<Rightarrow> concat ms # match_all rs (length (concat ms) - 1) cs))"

text \<open>\<open>s.replace(regex, callback)\<close> with the \<open>g\<close> flag; the callback gets the texts of the
  parts.  What a callback returns is inserted as it is.\<close>

fun replace_all :: "re list \<Rightarrow> (string list \<Rightarrow> string) \<Rightarrow> nat \<Rightarrow> string \<Rightarrow> string" where
  "replace_all rs f skip [] =
     (if skip = 0 \<and> match_parts rs [] \<noteq> [] then f (fst (hd (match_parts rs []))) else [])"
| "replace_all rs f skip (c # cs) =
     (if 0 < skip then replace_all rs f (skip - 1) cs
      else (case match_parts rs (c # cs) of
              [] \<Rightarrow> c # replace_all rs f 0 cs
            | (ms, fin) # _ \<Rightarrow>
                if concat ms = [] then f ms @ c # replace_all rs f 0 cs
                else f ms @ replace_all rs f (length (concat ms) - 1) cs))"

text \<open>\<open>s.replace(regex, callback)\<close> without the \<open>g\<close> flag: the first match only.\<close>

definition replace_first :: "re list \<Rightarrow> (string list \<Rightarrow> string) \<Rightarrow> string \<Rightarrow> string" where
  "replace_first rs f s =
     (case re_search rs s of
        None \<Rightarrow> s
      | Some (pre, ms, fin) \<Rightarrow> pre @ f ms @ fin)"

definition isQuote :: "char \<Rightarrow> bool" where
  "isQuote c = (c = CHR 0x27 \<or> c = CHR 0x22)"

definition anyChar :: "char \<Rightarrow> bool" where
  "anyChar c = True"

definition isLower :: "char \<Rightarrow> bool" where
  "isLower c = (CHR ''a'' \<le> c \<and> c \<le> CHR ''z'')"

definition isUpper :: "char \<Rightarrow> bool" where
  "isUpper c = (CHR ''A'' \<le> c \<and> c \<le> CHR ''Z'')"

definition isDigit :: "char \<Rightarrow> bool" where
  "isDigit c = (CHR ''0'' \<le> c \<and> c \<le> CHR ''9'')"

text \<open>The class \<open>\w\<close>.\<close>

definition isWord :: "char \<Rightarrow> bool" where
  "isWord c = (isLower c \<or> isUpper c \<or> isDigit c \<or> c = CHR ''_'')"


section \<open>Name transformations (\<open>strings\<close> of the Angular DevKit)\<close>

text \<open>
  Modelled from the spec: the three name transformations (dash-casing, pascal-case
  classification, camel-casing) are \<open>strings.dasherize\<close>, \<open>strings.classify\<close> and
  \<open>strings.camelize\<close> of the library \<open>@angular-devkit/core\<close>, which is not part of the
  repository.  They are written out here after the library:
  \<^item> \<open>decamelize(s) = s.replace(/([a-z\d])([A-Z])/g, '$1_$2').toLowerCase()\<close>
  \<^item> \<open>dasherize(s) = decamelize(s).replace(/[ _]/g, '-')\<close>
  \<^item> \<open>camelize(s) = s.replace(/(-|_|\.|\s)+(.)?/g, (m, sep, chr) => chr ? chr.toUpperCase() : '')
      .replace(/^([A-Z])/, (m) => m.toLowerCase())\<close>
  \<^item> \<open>capitalize(s) = s.charAt(0).toUpperCase() + s.slice(1)\<close>
  \<^item> \<open>classify(s) = s.split('.').map((part) => capitalize(camelize(part))).join('')\<close>

  The two case mappings act on the letters \<open>a\<close> to \<open>z\<close> and \<open>A\<close> to \<open>Z\<close>; names are taken to have
  no other letters.
\<close>

definition toLowerCase :: "char \<Rightarrow> char" where
  "toLowerCase c = (if isUpper c then char_of (of_char c + (32::nat)) else c)"

definition toUpperCase :: "char \<Rightarrow> char" where
  "toUpperCase c = (if isLower c then char_of (of_char c - (32::nat)) else c)"

definition decamelize :: "string \<Rightarrow> string" where
  "decamelize s =
     map toLowerCase
       (replace_all [Cls (\<lambda>c. isLower c \<or> isDigit c), Cls isUpper]
          (\<lambda>ms. case ms of [a, b] \<Rightarrow> a @ ''_'' @ b | _ \<Rightarrow> concat ms) 0 s)"

definition dasherize :: "string \<Rightarrow> string" where
  "dasherize s = map (\<lambda>c. if c = CHR '' '' \<or> c = CHR ''_'' then CHR ''-'' else c) (decamelize s)"

definition isSeparator :: "char \<Rightarrow> bool" where
  "isSeparator c = (c = CHR ''-'' \<or> c = CHR ''_'' \<or> c = CHR ''.'' \<or> isSpace c)"

definition camelize :: "string \<Rightarrow> string" where
  "camelize s =
     (let t = replace_all [Plus isSeparator, Opt (\<lambda>c. \<not> isLineTerminator c)]
                (\<lambda>ms. case ms of [sep, chr] \<Rightarrow> map toUpperCase chr | _ \<Rightarrow> concat ms) 0 s
      in case t of [] \<Rightarrow> [] | c # cs \<Rightarrow> (if isUpper c then toLowerCase c # cs else c # cs))"

definition capitalize :: "string \<Rightarrow> string" where
  "capitalize s = (case s of [] \<Rightarrow> [] | c # cs \<Rightarrow> toUpperCase c # cs)"

definition classify :: "string \<Rightarrow> string" where
  "classify s = concat (map (\<lambda>part. capitalize (camelize part)) (split_on CHR ''.'' s))"

section \<open>Option normalizer (\<open>utils/option-normalizer.ts\<close>)\<close>

text \<open>The raw options: \<open>path\<close>, \<open>skipImport\<close> and \<open>flat\<close> may be absent.\<close>

record GenerateOptions =
  o_name :: string
  o_path :: "string option"
  o_skipImport :: "bool option"
  o_flat :: "bool option"

record NormalizedOptions =
  n_name :: string
  n_normalizedPath :: string
  n_skipImport :: bool
  n_flat :: bool

definition DEFAULT_PATH :: string where
  "DEFAULT_PATH = ''src''"

text \<open>An absent path and the empty path are both falsy; an absent flag counts as false.\<close>

definition normalizeOptions :: "GenerateOptions \<Rightarrow> NormalizedOptions" where
  "normalizeOptions options =
     (let name = dasherize (o_name options);
          path = (case o_path options of
                    None \<Rightarrow> DEFAULT_PATH
                  | Some p \<Rightarrow> if p \<noteq> [] then ''src/'' @ p else DEFAULT_PATH);
          normalizedPath = (if endsWith path ''/'' then path else path @ ''/'');
          skipImport = (case o_skipImport options of None \<Rightarrow> False | Some b \<Rightarrow> b);
          flat = (case o_flat options of None \<Rightarrow> False | Some b \<Rightarrow> b)
      in \<lparr> n_name = name, n_normalizedPath = normalizedPath,
           n_skipImport = skipImport, n_flat = flat \<rparr>)"

section \<open>Content patcher (\<open>utils/content-manipulator.ts\<close>)\<close>

text \<open>\<open>/import.*from\s+['"][^'"]+['"];/g\<close>\<close>

definition importRegex :: "re list" where
  "importRegex =
     [Lit ''import'', Star (\<lambda>c. \<not> isLineTerminator c), Lit ''from'', Plus isSpace,
      Cls isQuote, Plus (\<lambda>c. \<not> isQuote c), Cls isQuote, Lit '';'']"

text \<open>The same function, with the same text, is in \<open>command/command.ts\<close> and in
  \<open>utils/helpers/index.ts\<close>.\<close>

definition addImportStatement :: "string \<Rightarrow> string \<Rightarrow> string" where
  "addImportStatement content importStatement =
     (let imports = match_all importRegex 0 content
      in if imports \<noteq> [] then
           (let lastImport = last imports
            in str_replace content lastImport (lastImport @ ''\<newline>'' @ importStatement))
         else importStatement @ ''\<newline>'' @ content)"

text \<open>\<open>/providers:\s*\[([\s\S]*?)\]/m\<close>; the capture group is the fourth part.\<close>

definition providersRegex :: "re list" where
  "providersRegex = [Lit ''providers:'', Star isSpace, Lit ''['', LazyStar anyChar, Lit '']'']"

text \<open>The same function, with the same text, is in \<open>command/command.ts\<close> and in
  \<open>utils/helpers/index.ts\<close>.\<close>

definition addProviderEntry :: "string \<Rightarrow> string \<Rightarrow> string \<Rightarrow> string" where
  "addProviderEntry content providerEntry name =
     replace_first providersRegex
       (\<lambda>ms. case ms of
          [m0, ws, m2, providers, m4] \<Rightarrow>
            if str_includes providers (classify name @ ''Handler'') then concat ms
            else
              (let existingProviders = str_trim providers;
                   separator = (if existingProviders \<noteq> [] \<and> \<not> endsWith existingProviders '',''
                                then '','' else [])
               in ''providers: ['' @ existingProviders @ separator @ ''\<newline>'' @ providerEntry
                  @ ''\<newline>  ]'')
        | _ \<Rightarrow> concat ms)
       content"

text \<open>
  The compiled command generator (\<open>dist/command/command.js\<close>) has an older
  \<open>addProviderEntry\<close>: the pattern is \<open>/providers: \[([\s\S]*?)\]/\<close> and the separator is
  \<open>existingProviders ? "," : ""\<close>.
\<close>

definition dist_providersRegex :: "re list" where
  "dist_providersRegex = [Lit ''providers: ['', LazyStar anyChar, Lit '']'']"

definition dist_addProviderEntry :: "string \<Rightarrow> string \<Rightarrow> string \<Rightarrow> string" where
  "dist_addProviderEntry content providerEntry name =
     replace_first dist_providersRegex
       (\<lambda>ms. case ms of
          [m0, providers, m2] \<Rightarrow>
            if str_includes providers (classify name @ ''Handler'') then concat ms
            else
              (let existingProviders = str_trim providers;
                   separator = (if existingProviders \<noteq> [] then '','' else [])
               in ''providers: ['' @ existingProviders @ separator @ ''\<newline>'' @ providerEntry
                  @ ''\<newline>  ]'')
        | _ \<Rightarrow> concat ms)
       content"

section \<open>The file tree\<close>

text \<open>
  Modelled from the spec: the file tree is a collaborator from the schematics framework,
  outside the repository; the specification asks of it to read a file by path, to create
  and to overwrite a file, and to list the files of a directory.  It is modelled by the
  files it holds, in the order in which a directory lists them, and by the directories
  whose listing cannot be read.  Paths are compared as they are written.  Creating a file
  that exists raises, and so does overwriting a file that does not.
\<close>

record tree =
  files :: "(string \<times> string) list"
  noAccess :: "string list"

datatype error =
    NameRequired
  | FileAlreadyExists string
  | FileDoesNotExist string
  | CouldNotReadModule string
  | NoProvidersArray string
  | FailedToUpdateModule error
  | FailedToGenerate error

text \<open>\<open>tree.getDir(dir).subfiles\<close>: the names of the files directly in \<open>dir\<close>; \<open>None\<close> when
  reading the directory raises.\<close>

definition getDir_subfiles :: "tree \<Rightarrow> string \<Rightarrow> string list option" where
  "getDir_subfiles t dir =
     (if dir \<in> set (noAccess t) then None
      else Some (map (\<lambda>p. drop (length dir) p)
                   (filter (\<lambda>p. startsWith p dir \<and> CHR ''/'' \<notin> set (drop (length dir) p))
                      (map fst (files t)))))"

definition tree_read :: "tree \<Rightarrow> string \<Rightarrow> string option" where
  "tree_read t p = map_of (files t) p"

definition tree_create :: "tree \<Rightarrow> string \<Rightarrow> string \<Rightarrow> error + tree" where
  "tree_create t p content =
     (if map_of (files t) p \<noteq> None then Inl (FileAlreadyExists p)
      else Inr (t\<lparr>files := files t @ [(p, content)]\<rparr>))"

definition tree_overwrite :: "tree \<Rightarrow> string \<Rightarrow> string \<Rightarrow> error + tree" where
  "tree_overwrite t p content =
     (if map_of (files t) p = None then Inl (FileDoesNotExist p)
      else Inr (t\<lparr>files := map (\<lambda>(q, c). if q = p then (q, content) else (q, c)) (files t)\<rparr>))"

section \<open>Module updater (\<open>utils/module-updater.ts\<close>)\<close>

definition findModuleFile :: "tree \<Rightarrow> string \<Rightarrow> string option" where
  "findModuleFile t currentPath =
     (let parentPath = getParentPath currentPath 1
      in case getDir_subfiles t parentPath of
           None \<Rightarrow> None
         | Some subfiles \<Rightarrow>
             (let moduleFiles = map (\<lambda>file. parentPath @ file)
                                  (filter (\<lambda>file. endsWith file ''.module.ts'') subfiles)
              in if length moduleFiles = 0 then None else Some (moduleFiles ! 0)))"

text \<open>\<open>/providers\s*:\s*\[/\<close>\<close>

definition providersTestRegex :: "re list" where
  "providersTestRegex = [Lit ''providers'', Star isSpace, Lit '':'', Star isSpace, Lit ''['']"

definition importStatementFor :: "string \<Rightarrow> string \<Rightarrow> string" where
  "importStatementFor name relativeImportPath =
     ''import { '' @ classify name @ ''Handler } from '' @ [CHR 0x27] @ relativeImportPath
       @ [CHR 0x27] @ '';''"

definition providerEntryFor :: "string \<Rightarrow> string" where
  "providerEntryFor name = ''    '' @ classify name @ ''Handler,''"

text \<open>
  The body of \<open>updateModuleFile\<close> from the import and provider statements to the content that
  is written back: \<open>Inr None\<close> when the function returns without writing, \<open>Inr (Some c)\<close> when
  it writes \<open>c\<close>, \<open>Inl\<close> the exception raised.
\<close>

definition patchModuleContent ::
  "string \<Rightarrow> string \<Rightarrow> string \<Rightarrow> string \<Rightarrow> error + string option" where
  "patchModuleContent modulePath moduleContent name relativeImportPath =
     (let importStatement = importStatementFor name relativeImportPath;
          providerEntry = providerEntryFor name
      in if str_includes moduleContent importStatement \<or> str_includes moduleContent providerEntry
         then Inr None
         else
           (let updatedImports = addImportStatement moduleContent importStatement
            in if \<not> re_test providersTestRegex updatedImports
               then Inl (NoProvidersArray modulePath)
               else Inr (Some (addProviderEntry updatedImports providerEntry name))))"

definition updateModuleFile :: "tree \<Rightarrow> string \<Rightarrow> string \<Rightarrow> bool \<Rightarrow> error + tree" where
  "updateModuleFile t name normalizedPath flat =
     (case findModuleFile t normalizedPath of
        None \<Rightarrow> Inr t
      | Some modulePath \<Rightarrow>
          (case (case tree_read t modulePath of
                   None \<Rightarrow> Inl (CouldNotReadModule modulePath)
                 | Some moduleContent \<Rightarrow>
                     if moduleContent = [] then Inl (CouldNotReadModule modulePath)
                     else
                       (case patchModuleContent modulePath moduleContent name
                               (calculateRelativeImportPath modulePath normalizedPath name flat) of
                          Inl e \<Rightarrow> Inl e
                        | Inr None \<Rightarrow> Inr t
                        | Inr (Some updatedProviders) \<Rightarrow>
                            tree_overwrite t modulePath updatedProviders)) of
             Inl e \<Rightarrow> Inl (FailedToUpdateModule e)
           | Inr t' \<Rightarrow> Inr t'))"

section \<open>Command generator (\<open>command/command.ts\<close>)\<close>

text \<open>
  \<open>command.ts\<close> has its own copies of \<open>normalizeOptions\<close>, \<open>findModuleFile\<close>, \<open>getParentPath\<close>,
  \<open>calculateRelativeImportPath\<close>, \<open>getRelativePath\<close>, \<open>addImportStatement\<close> and
  \<open>addProviderEntry\<close>, with the same text as the utilities above.  Its \<open>updateModuleFile\<close>
  differs: it skips the file when the handler's class name occurs anywhere in it, and it
  does not test for a providers array.  \<open>utils/helpers/index.ts\<close>, which the query
  generator uses, has this second \<open>updateModuleFile\<close> too.
\<close>

definition command_patchModuleContent ::
  "string \<Rightarrow> string \<Rightarrow> string \<Rightarrow> string \<Rightarrow> error + string option" where
  "command_patchModuleContent modulePath moduleContent name relativeImportPath =
     (let importStatement = importStatementFor name relativeImportPath;
          providerEntry = providerEntryFor name
      in if str_includes moduleContent importStatement
            \<or> str_includes moduleContent (classify name @ ''Handler'')
         then Inr None
         else
           (let updatedImports = addImportStatement moduleContent importStatement
            in Inr (Some (addProviderEntry updatedImports providerEntry name))))"

definition command_updateModuleFile :: "tree \<Rightarrow> string \<Rightarrow> string \<Rightarrow> bool \<Rightarrow> error + tree" where
  "command_updateModuleFile t name normalizedPath flat =
     (case findModuleFile t normalizedPath of
        None \<Rightarrow> Inr t
      | Some modulePath \<Rightarrow>
          (case (case tree_read t modulePath of
                   None \<Rightarrow> Inl (CouldNotReadModule modulePath)
                 | Some moduleContent \<Rightarrow>
                     if moduleContent = [] then Inl (CouldNotReadModule modulePath)
                     else
                       (case command_patchModuleContent modulePath moduleContent name
                               (calculateRelativeImportPath modulePath normalizedPath name flat) of
                          Inl e \<Rightarrow> Inl e
                        | Inr None \<Rightarrow> Inr t
                        | Inr (Some updatedProviders) \<Rightarrow>
                            tree_overwrite t modulePath updatedProviders)) of
             Inl e \<Rightarrow> Inl (FailedToUpdateModule e)
           | Inr t' \<Rightarrow> Inr t'))"

text \<open>\<open>/<%= (\w+)\((\w+)\) %>/g\<close> of \<open>utils/template.ts\<close>; the groups are the second and the
  fourth part.\<close>

definition templateRegex :: "re list" where
  "templateRegex = [Lit ''<%= '', Plus isWord, Lit ''('', Plus isWord, Lit '') %>'']"

definition processTemplate :: "string \<Rightarrow> string \<Rightarrow> string" where
  "processTemplate template name =
     replace_all templateRegex
       (\<lambda>ms. case ms of
          [m0, fn, m2, arg, m4] \<Rightarrow>
            if fn = ''classify'' \<and> arg = ''name'' then classify name
            else if fn = ''dasherize'' \<and> arg = ''name'' then dasherize name
            else if fn = ''camelize'' \<and> arg = ''name'' then camelize name
            else concat ms
        | _ \<Rightarrow> concat ms)
       0 template"

definition TEMPLATES_COMMAND :: string where
  "TEMPLATES_COMMAND =
      ''\<newline>''
      @ ''\<newline>''
      @ ''  import { Command } from '@nestjs/cqrs';\<newline>''
      @ ''\<newline>''
      @ ''export interface <%= classify(name) %>CommandPayload {\<newline>''
      @ ''  name: string;\<newline>''
      @ ''  description?: string;\<newline>''
      @ ''}\<newline>''
      @ ''\<newline>''
      @ ''export class <%= classify(name) %>Command extends Command<any> {\<newline>''
      @ ''  constructor(public readonly payload: <%= classify(name) %>CommandPayload) {\<newline>''
      @ ''    super();\<newline>''
      @ ''  }\<newline>''
      @ ''}\<newline>''"

definition TEMPLATES_HANDLER :: string where
  "TEMPLATES_HANDLER =
      ''\<newline>''
      @ ''import { CommandHandler, ICommandHandler } from '@nestjs/cqrs';\<newline>''
      @ ''import { <%= classify(name) %>Command } from '<%= importPath %>';\<newline>''
      @ ''\<newline>''
      @ ''@CommandHandler(<%= classify(name) %>Command)\<newline>''
      @ ''export class <%= classify(name) %>Handler implements ICommandHandler<<%= classify(name) %>Command> {\<newline>''
      @ ''  constructor() {}\<newline>''
      @ ''\<newline>''
      @ ''  async execute(command: <%= classify(name) %>Command): Promise<any> {\<newline>''
      @ ''    const { payload } = command;\<newline>''
      @ ''    return { success: true };\<newline>''
      @ ''  }\<newline>''
      @ ''}\<newline>''"

definition createCommandFiles ::
  "tree \<Rightarrow> string \<Rightarrow> string \<Rightarrow> bool \<Rightarrow> string \<Rightarrow> string \<Rightarrow> error + tree" where
  "createCommandFiles t name normalizedPath flat commandContent handlerContent =
     (let commandPath = (if flat then normalizedPath else normalizedPath @ ''impl/'');
          handlerPath = (if flat then normalizedPath else normalizedPath @ ''handlers/'');
          commandFilePath = commandPath @ name @ ''.command.ts'';
          handlerFilePath = handlerPath @ name @ ''.handler.ts''
      in case tree_create t commandFilePath commandContent of
           Inl e \<Rightarrow> Inl e
         | Inr t1 \<Rightarrow> tree_create t1 handlerFilePath handlerContent)"

definition command :: "GenerateOptions \<Rightarrow> tree \<Rightarrow> error + tree" where
  "command opts t =
     (case (if o_name opts = [] then Inl NameRequired
            else
              (let options = normalizeOptions opts;
                   name = n_name options;
                   normalizedPath = n_normalizedPath options;
                   skipImport = n_skipImport options;
                   flat = n_flat options;
                   commandContent = processTemplate TEMPLATES_COMMAND name;
                   importPath = (if flat then ''./'' @ name @ ''.command''
                                 else ''../impl/'' @ name @ ''.command'');
                   handlerTemplate = str_replace TEMPLATES_HANDLER ''<%= importPath %>'' importPath;
                   handlerContent = processTemplate handlerTemplate name
               in case createCommandFiles t name normalizedPath flat commandContent
                         handlerContent of
                    Inl e \<Rightarrow> Inl e
                  | Inr t1 \<Rightarrow>
                      if \<not> skipImport then command_updateModuleFile t1 name normalizedPath flat
                      else Inr t1)) of
        Inl e \<Rightarrow> Inl (FailedToGenerate e)
      | Inr t' \<Rightarrow> Inr t')"


section \<open>Notions of the specification\<close>

text \<open>
  The relative path as the specification words it: split both paths into segments without
  the empty ones, take the longest common prefix of the two segment lists, write one \<open>..\<close>
  for every source segment beyond it, then the target segments beyond it, join with \<open>/\<close>,
  and put \<open>./\<close> in front unless the result starts with \<open>../\<close>.
\<close>

definition relativePath_spec :: "string \<Rightarrow> string \<Rightarrow> string" where
  "relativePath_spec from to =
     (let common = longest_common_prefix (pathParts from) (pathParts to);
          joined = join_with ''/'' (replicate (length (pathParts from) - length common) ''..''
                                     @ drop (length common) (pathParts to))
      in if startsWith joined ''../'' then joined else ''./'' @ joined)"

text \<open>
  Resolving a path: the segments are read from left to right, \<open>.\<close> stays where it is, \<open>..\<close>
  leaves the directory reached so far, every other segment enters a directory.  A relative
  path is resolved against a directory by reading the directory's segments and then the
  path's.
\<close>

definition resolveStep :: "string list \<Rightarrow> string \<Rightarrow> string list" where
  "resolveStep reached seg =
     (if seg = ''.'' then reached else if seg = ''..'' then butlast reached else reached @ [seg])"

definition resolveSegments :: "string list \<Rightarrow> string list" where
  "resolveSegments segs = foldl resolveStep [] segs"

definition resolveAgainst :: "string \<Rightarrow> string \<Rightarrow> string list" where
  "resolveAgainst dir rel = resolveSegments (pathParts dir @ pathParts rel)"

definition noDotSegments :: "string \<Rightarrow> bool" where
  "noDotSegments p = (''.'' \<notin> set (pathParts p) \<and> ''..'' \<notin> set (pathParts p))"

text \<open>The source segments beyond the longest common prefix of source and target: the
  segments for which the relative path writes \<open>..\<close>.\<close>

definition sourceBeyondCommon :: "string \<Rightarrow> string \<Rightarrow> string list" where
  "sourceBeyondCommon from to =
     drop (length (longest_common_prefix (pathParts from) (pathParts to))) (pathParts from)"

text \<open>
  A bracketed registration array introduced by the providers marker, as the pattern
  \<open>/providers:\s*\[([\s\S]*?)\]/\<close> reads it at one place of the content: after the text
  \<open>pre\<close> come the marker \<open>providers:\<close>, white space \<open>ws\<close>, the opening bracket, the contents
  \<open>inner\<close> up to the first closing bracket, that bracket, and the text \<open>post\<close>.
\<close>

definition providersArrayAt :: "string \<Rightarrow> string \<Rightarrow> string \<Rightarrow> string \<Rightarrow> string \<Rightarrow> bool" where
  "providersArrayAt content pre ws inner post =
     (content = pre @ ''providers:'' @ ws @ ''['' @ inner @ '']'' @ post
      \<and> list_all isSpace ws \<and> CHR '']'' \<notin> set inner)"

text \<open>The lines of a text.\<close>

definition lines_of :: "string \<Rightarrow> string list" where
  "lines_of s = split_on CHR 0x0A s"

text \<open>
  The handler file that the end-to-end scenario expects for the identifier \<open>create user\<close>:
  the handler template of \<open>command.ts\<close> with \<open>CreateUser\<close> as the class name, importing the
  command from the given path.
\<close>

definition createUserHandlerText :: "string \<Rightarrow> string" where
  "createUserHandlerText importPath =
     ''\<newline>import { CommandHandler, ICommandHandler } from '@nestjs/cqrs';\<newline>''
     @ ''import { CreateUserCommand } from '' @ [CHR 0x27] @ importPath @ [CHR 0x27] @ '';\<newline>''
     @ ''\<newline>''
     @ ''@CommandHandler(CreateUserCommand)\<newline>''
     @ ''export class CreateUserHandler implements ICommandHandler<CreateUserCommand> {\<newline>''
     @ ''  constructor() {}\<newline>''
     @ ''\<newline>''
     @ ''  async execute(command: CreateUserCommand): Promise<any> {\<newline>''
     @ ''    const { payload } = command;\<newline>''
     @ ''    return { success: true };\<newline>''
     @ ''  }\<newline>''
     @ ''}\<newline>''"

text \<open>The texts that one part of a regular expression matches.\<close>

fun re_matches :: "re \<Rightarrow> string \<Rightarrow> bool" where
  "re_matches (Lit p) m = (m = p)"
| "re_matches (Cls P) m = (case m of [c] \<Rightarrow> P c | _ \<Rightarrow> False)"
| "re_matches (Star P) m = list_all P m"
| "re_matches (Plus P) m = (m \<noteq> [] \<and> list_all P m)"
| "re_matches (Opt P) m = (case m of [] \<Rightarrow> True | [c] \<Rightarrow> P c | _ \<Rightarrow> False)"
| "re_matches (LazyStar P) m = list_all P m"

section \<open>Properties\<close>

subsection \<open>Strings\<close>

lemma endsWith_iff: "endsWith s p \<longleftrightarrow> (\<exists>pre. s = pre @ p)"
proof
  assume "endsWith s p"
  then have "s = take (length s - length p) s @ p"
    unfolding endsWith_def by (metis append_take_drop_id)
  then show "\<exists>pre. s = pre @ p" ..
next
  assume "\<exists>pre. s = pre @ p"
  then show "endsWith s p" unfolding endsWith_def by auto
qed

lemma endsWith_append [simp]: "endsWith (s @ p) p"
  by (auto simp: endsWith_iff)

lemma endsWith_slash_append: "p \<noteq> [] \<Longrightarrow> endsWith (q @ p) ''/'' = endsWith p ''/''"
  by (cases p rule: rev_cases) (auto simp: endsWith_def)

lemma startsWith_iff: "startsWith s p \<longleftrightarrow> (\<exists>post. s = p @ post)"
  unfolding startsWith_def by (metis append_eq_conv_conj append_take_drop_id)

subsection \<open>Option normalizer\<close>

text \<open>
  C9.  The normalized directory always ends in \<open>/\<close>.  A non-empty path option \<open>p\<close> gives
  \<open>src/\<close> followed by \<open>p\<close> (and a closing \<open>/\<close> when \<open>p\<close> has none), whatever \<open>p\<close> is; an absent
  or empty path option gives \<open>src/\<close>.
\<close>

theorem normalizeOptions_normalizedPath:
  "endsWith (n_normalizedPath (normalizeOptions options)) ''/''
   \<and> (\<forall>p. o_path options = Some p \<and> p \<noteq> [] \<longrightarrow>
          n_normalizedPath (normalizeOptions options)
            = ''src/'' @ p @ (if endsWith p ''/'' then [] else ''/''))
   \<and> (o_path options = None \<or> o_path options = Some [] \<longrightarrow>
          n_normalizedPath (normalizeOptions options) = ''src/'')"
proof (intro conjI allI impI)
  show "endsWith (n_normalizedPath (normalizeOptions options)) ''/''"
    by (simp add: normalizeOptions_def Let_def)
next
  fix p assume "o_path options = Some p \<and> p \<noteq> []"
  then show "n_normalizedPath (normalizeOptions options)
            = ''src/'' @ p @ (if endsWith p ''/'' then [] else ''/'')"
    using endsWith_slash_append [of p "''src/''"]
    by (simp add: normalizeOptions_def Let_def)
next
  assume "o_path options = None \<or> o_path options = Some []"
  then show "n_normalizedPath (normalizeOptions options) = ''src/''"
    by (auto simp: normalizeOptions_def Let_def DEFAULT_PATH_def endsWith_def)
qed

text \<open>The path option \<open>app/users\<close> becomes \<open>src/app/users/\<close>; no path option gives \<open>src/\<close>.\<close>

theorem normalizeOptions_normalizedPath_witness:
  "n_normalizedPath (normalizeOptions
      \<lparr>o_name = ''create user'', o_path = Some ''app/users'', o_skipImport = None, o_flat = None\<rparr>)
     = ''src/app/users/''
   \<and> endsWith ''src/app/users/'' ''/''
   \<and> n_normalizedPath (normalizeOptions
      \<lparr>o_name = ''create user'', o_path = None, o_skipImport = None, o_flat = None\<rparr>)
     = ''src/''"
  using normalizeOptions_normalizedPath
          [of "\<lparr>o_name = ''create user'', o_path = Some ''app/users'', o_skipImport = None, o_flat = None\<rparr>"]
        normalizeOptions_normalizedPath
          [of "\<lparr>o_name = ''create user'', o_path = None, o_skipImport = None, o_flat = None\<rparr>"]
  by (simp add: endsWith_def)

subsection \<open>Path utilities and the module locator\<close>

lemma split_on_not_Nil [simp]: "split_on d s \<noteq> []"
  by (induction s) (auto split: list.splits)

lemma split_on_snoc: "split_on d (s @ [d]) = split_on d s @ [[]]"
  by (induction s) (auto split: list.splits)

lemma pathParts_removeTrailingSlash [simp]: "pathParts (removeTrailingSlash p) = pathParts p"
proof (cases "endsWith p ''/''")
  case True
  then obtain q where "p = q @ ''/''" by (auto simp: endsWith_iff)
  then show ?thesis
    by (simp add: removeTrailingSlash_def pathParts_def split_on_snoc)
next
  case False
  then show ?thesis by (simp add: removeTrailingSlash_def)
qed

lemma getParentPath_one:
  "getParentPath p 1
     = (if butlast (pathParts p) = [] then [] else join_with ''/'' (butlast (pathParts p)) @ ''/'')"
  by (simp add: getParentPath_def Let_def)

text \<open>
  C7.  \<open>findModuleFile\<close> reads one directory listing, that of the directory one level above
  the target directory, and nothing else of the tree.  When the listing cannot be read the
  result is \<open>None\<close>, as it is when no listed name ends in \<open>.module.ts\<close>; one such name gives
  its path; several give the path of the first one in the order of the listing.
\<close>

theorem findModuleFile_parent_listing:
  "getParentPath currentPath 1
     = (if butlast (pathParts currentPath) = [] then []
        else join_with ''/'' (butlast (pathParts currentPath)) @ ''/'')
   \<and> (\<forall>t'. getDir_subfiles t' (getParentPath currentPath 1)
                = getDir_subfiles t (getParentPath currentPath 1)
             \<longrightarrow> findModuleFile t' currentPath = findModuleFile t currentPath)
   \<and> (getDir_subfiles t (getParentPath currentPath 1) = None
        \<longrightarrow> findModuleFile t currentPath = None)
   \<and> (\<forall>subfiles. getDir_subfiles t (getParentPath currentPath 1) = Some subfiles \<longrightarrow>
          (filter (\<lambda>file. endsWith file ''.module.ts'') subfiles = []
             \<longrightarrow> findModuleFile t currentPath = None)
        \<and> (\<forall>file. filter (\<lambda>file. endsWith file ''.module.ts'') subfiles = [file]
             \<longrightarrow> findModuleFile t currentPath = Some (getParentPath currentPath 1 @ file))
        \<and> (\<forall>file others. filter (\<lambda>file. endsWith file ''.module.ts'') subfiles = file # others
             \<longrightarrow> findModuleFile t currentPath = Some (getParentPath currentPath 1 @ file)
                 \<and> (\<exists>earlier later. subfiles = earlier @ file # later
                        \<and> (\<forall>x \<in> set earlier. \<not> endsWith x ''.module.ts''))))"
proof (intro conjI allI impI)
  show "getParentPath currentPath 1
     = (if butlast (pathParts currentPath) = [] then []
        else join_with ''/'' (butlast (pathParts currentPath)) @ ''/'')"
    by (rule getParentPath_one)
next
  fix t' assume "getDir_subfiles t' (getParentPath currentPath 1)
                = getDir_subfiles t (getParentPath currentPath 1)"
  then show "findModuleFile t' currentPath = findModuleFile t currentPath"
    by (simp add: findModuleFile_def Let_def)
next
  assume "getDir_subfiles t (getParentPath currentPath 1) = None"
  then show "findModuleFile t currentPath = None"
    by (simp add: findModuleFile_def Let_def)
next
  fix subfiles
  assume "getDir_subfiles t (getParentPath currentPath 1) = Some subfiles"
    and "filter (\<lambda>file. endsWith file ''.module.ts'') subfiles = []"
  then show "findModuleFile t currentPath = None"
    by (simp add: findModuleFile_def Let_def)
next
  fix subfiles fileName
  assume "getDir_subfiles t (getParentPath currentPath 1) = Some subfiles"
    and "filter (\<lambda>file. endsWith file ''.module.ts'') subfiles = [fileName]"
  then show "findModuleFile t currentPath = Some (getParentPath currentPath 1 @ fileName)"
    by (simp add: findModuleFile_def Let_def)
next
  fix subfiles fileName others
  assume "getDir_subfiles t (getParentPath currentPath 1) = Some subfiles"
    and "filter (\<lambda>file. endsWith file ''.module.ts'') subfiles = fileName # others"
  then show "findModuleFile t currentPath = Some (getParentPath currentPath 1 @ fileName)"
    by (simp add: findModuleFile_def Let_def)
next
  fix subfiles fileName others
  assume "filter (\<lambda>file. endsWith file ''.module.ts'') subfiles = fileName # others"
  then obtain earlier later where "subfiles = earlier @ fileName # later"
      and "\<forall>x \<in> set earlier. \<not> endsWith x ''.module.ts''"
    by (auto simp: filter_eq_Cons_iff)
  then show "\<exists>earlier later. subfiles = earlier @ fileName # later
                        \<and> (\<forall>x \<in> set earlier. \<not> endsWith x ''.module.ts'')"
    by blast
qed


text \<open>Four trees for the target directory \<open>src/users/\<close>: the listing of \<open>src/\<close> cannot be
  read; it has no module file; it has one; it has two.\<close>

theorem findModuleFile_parent_listing_witness:
  "findModuleFile \<lparr>files = [(''src/app.module.ts'', ''a'')], noAccess = [''src/'']\<rparr> ''src/users/'' = None
   \<and> findModuleFile \<lparr>files = [(''src/main.ts'', ''m''), (''src/users/users.module.ts'', ''u'')],
                      noAccess = []\<rparr> ''src/users/'' = None
   \<and> findModuleFile \<lparr>files = [(''src/main.ts'', ''m''), (''src/app.module.ts'', ''a'')],
                      noAccess = []\<rparr> ''src/users/'' = Some ''src/app.module.ts''
   \<and> findModuleFile \<lparr>files = [(''src/main.ts'', ''m''), (''src/core.module.ts'', ''c''),
                               (''src/app.module.ts'', ''a'')],
                      noAccess = []\<rparr> ''src/users/'' = Some ''src/core.module.ts''"
proof -
  have parent: "getParentPath ''src/users/'' 1 = ''src/''"
    by code_simp
  have l1: "getDir_subfiles \<lparr>files = [(''src/app.module.ts'', ''a'')], noAccess = [''src/'']\<rparr> ''src/''
              = None"
    by code_simp
  have l2: "getDir_subfiles \<lparr>files = [(''src/main.ts'', ''m''), (''src/users/users.module.ts'', ''u'')],
                      noAccess = []\<rparr> ''src/'' = Some [''main.ts'']"
    by code_simp
  have l3: "getDir_subfiles \<lparr>files = [(''src/main.ts'', ''m''), (''src/app.module.ts'', ''a'')],
                      noAccess = []\<rparr> ''src/'' = Some [''main.ts'', ''app.module.ts'']"
    by code_simp
  have l4: "getDir_subfiles \<lparr>files = [(''src/main.ts'', ''m''), (''src/core.module.ts'', ''c''),
                               (''src/app.module.ts'', ''a'')],
                      noAccess = []\<rparr> ''src/''
              = Some [''main.ts'', ''core.module.ts'', ''app.module.ts'']"
    by code_simp
  have f2: "filter (\<lambda>file. endsWith file ''.module.ts'') [''main.ts''] = []"
    by code_simp
  have f3: "filter (\<lambda>file. endsWith file ''.module.ts'') [''main.ts'', ''app.module.ts'']
              = [''app.module.ts'']"
    by code_simp
  have f4: "filter (\<lambda>file. endsWith file ''.module.ts'')
              [''main.ts'', ''core.module.ts'', ''app.module.ts'']
              = [''core.module.ts'', ''app.module.ts'']"
    by code_simp
  have r1: "findModuleFile \<lparr>files = [(''src/app.module.ts'', ''a'')], noAccess = [''src/'']\<rparr>
              ''src/users/'' = None"
    using findModuleFile_parent_listing
            [of "''src/users/''" "\<lparr>files = [(''src/app.module.ts'', ''a'')], noAccess = [''src/'']\<rparr>"]
          l1 unfolding parent by blast
  have r2: "findModuleFile \<lparr>files = [(''src/main.ts'', ''m''), (''src/users/users.module.ts'', ''u'')],
                      noAccess = []\<rparr> ''src/users/'' = None"
    using findModuleFile_parent_listing
            [of "''src/users/''" "\<lparr>files = [(''src/main.ts'', ''m''), (''src/users/users.module.ts'', ''u'')],
                      noAccess = []\<rparr>"]
          l2 f2 unfolding parent by blast
  have r3: "findModuleFile \<lparr>files = [(''src/main.ts'', ''m''), (''src/app.module.ts'', ''a'')],
                      noAccess = []\<rparr> ''src/users/'' = Some (''src/'' @ ''app.module.ts'')"
    using findModuleFile_parent_listing
            [of "''src/users/''" "\<lparr>files = [(''src/main.ts'', ''m''), (''src/app.module.ts'', ''a'')],
                      noAccess = []\<rparr>"]
          l3 f3 unfolding parent by blast
  have r4: "findModuleFile \<lparr>files = [(''src/main.ts'', ''m''), (''src/core.module.ts'', ''c''),
                               (''src/app.module.ts'', ''a'')],
                      noAccess = []\<rparr> ''src/users/'' = Some (''src/'' @ ''core.module.ts'')"
    using findModuleFile_parent_listing
            [of "''src/users/''" "\<lparr>files = [(''src/main.ts'', ''m''), (''src/core.module.ts'', ''c''),
                               (''src/app.module.ts'', ''a'')],
                      noAccess = []\<rparr>"]
          l4 f4 unfolding parent by blast
  from r1 r2 r3 r4 show ?thesis by simp
qed

subsection \<open>The guard of the command generator\<close>

lemma str_includes_Nil_iff [simp]: "str_includes [] p \<longleftrightarrow> p = []"
  by simp

text \<open>
  C10.  When the module file that the command generator finds contains the handler's class
  name anywhere, \<open>updateModuleFile\<close> of \<open>command.ts\<close> returns normally and leaves the tree as
  it is: it adds neither an import line nor a registration entry.
\<close>

theorem command_updateModuleFile_handler_name_present:
  "findModuleFile t normalizedPath = Some modulePath
   \<Longrightarrow> tree_read t modulePath = Some moduleContent
   \<Longrightarrow> str_includes moduleContent (classify name @ ''Handler'')
   \<Longrightarrow> command_updateModuleFile t name normalizedPath flat = Inr t"
proof -
  assume found: "findModuleFile t normalizedPath = Some modulePath"
    and content: "tree_read t modulePath = Some moduleContent"
    and occurs: "str_includes moduleContent (classify name @ ''Handler'')"
  from occurs have "moduleContent \<noteq> []"
    by (cases moduleContent) auto
  with found content occurs show ?thesis
    by (simp add: command_updateModuleFile_def command_patchModuleContent_def Let_def)
qed

text \<open>A module file that mentions \<open>FooHandler\<close> in a comment only.\<close>

theorem command_updateModuleFile_handler_name_present_witness:
  "command_updateModuleFile
     \<lparr>files = [(''src/app.module.ts'',
                 ''// TODO: register FooHandler\<newline>export class AppModule {}'')],
      noAccess = []\<rparr> ''foo'' ''src/users/'' False
   = Inr \<lparr>files = [(''src/app.module.ts'',
                 ''// TODO: register FooHandler\<newline>export class AppModule {}'')],
      noAccess = []\<rparr>"
proof -
  have found: "findModuleFile
     \<lparr>files = [(''src/app.module.ts'',
                 ''// TODO: register FooHandler\<newline>export class AppModule {}'')],
      noAccess = []\<rparr> ''src/users/'' = Some ''src/app.module.ts''"
    by code_simp
  have content: "tree_read
     \<lparr>files = [(''src/app.module.ts'',
                 ''// TODO: register FooHandler\<newline>export class AppModule {}'')],
      noAccess = []\<rparr> ''src/app.module.ts''
     = Some ''// TODO: register FooHandler\<newline>export class AppModule {}''"
    by code_simp
  have occurs: "str_includes ''// TODO: register FooHandler\<newline>export class AppModule {}''
                  (classify ''foo'' @ ''Handler'')"
    by code_simp
  show ?thesis
    by (rule command_updateModuleFile_handler_name_present [OF found content occurs])
qed

subsection \<open>Relative-path calculator\<close>

lemma commonLengthLoop_eq:
  "n \<le> length fs \<Longrightarrow> n \<le> length ts
   \<Longrightarrow> commonLengthLoop fs ts n = n + length (longest_common_prefix (drop n fs) (drop n ts))"
proof (induction fs ts n rule: commonLengthLoop.induct)
  case (1 fs ts n)
  show ?case
  proof (cases "n < length fs \<and> n < length ts \<and> fs ! n = ts ! n")
    case True
    then have lt: "n < length fs" "n < length ts" and eq: "fs ! n = ts ! n"
      by simp_all
    have "drop n fs = fs ! n # drop (Suc n) fs"
      using lt(1) by (simp add: Cons_nth_drop_Suc)
    moreover have "drop n ts = fs ! n # drop (Suc n) ts"
      using lt(2) unfolding eq by (simp add: Cons_nth_drop_Suc)
    moreover have "commonLengthLoop fs ts (Suc n)
        = Suc n + length (longest_common_prefix (drop (Suc n) fs) (drop (Suc n) ts))"
      using True "1.IH" by simp
    ultimately show ?thesis
      using True by (subst commonLengthLoop.simps) simp
  next
    case False
    have "longest_common_prefix (drop n fs) (drop n ts) = []"
    proof (cases "n < length fs \<and> n < length ts")
      case True
      with False have "fs ! n \<noteq> ts ! n" by simp
      moreover from True have "drop n fs = fs ! n # drop (Suc n) fs"
          "drop n ts = ts ! n # drop (Suc n) ts"
        by (simp_all add: Cons_nth_drop_Suc)
      ultimately show ?thesis by simp
    next
      case False
      with "1.prems" have "drop n fs = [] \<or> drop n ts = []" by auto
      then show ?thesis by auto
    qed
    with False show ?thesis
      by (subst commonLengthLoop.simps) auto
  qed
qed

lemma commonLengthLoop_0: "commonLengthLoop fs ts 0 = length (longest_common_prefix fs ts)"
  using commonLengthLoop_eq [of 0 fs ts] by simp

lemma getRelativePath_spec: "getRelativePath from to = relativePath_spec from to"
  by (simp add: getRelativePath_def relativePath_spec_def Let_def commonLengthLoop_0)

lemma split_on_append: "split_on d (a @ d # b) = split_on d a @ split_on d b"
  by (induction a) (auto split: list.splits)

lemma split_on_none: "d \<notin> set s \<Longrightarrow> split_on d s = [s]"
  by (induction s) auto

lemma pathParts_append_slash: "pathParts (a @ CHR ''/'' # b) = pathParts a @ pathParts b"
  by (simp add: pathParts_def split_on_append)

lemma pathParts_single: "CHR ''/'' \<notin> set s \<Longrightarrow> pathParts s = (if s = [] then [] else [s])"
  by (simp add: pathParts_def split_on_none)

lemma pathParts_segment: "x \<in> set (pathParts p) \<Longrightarrow> x \<noteq> [] \<and> CHR ''/'' \<notin> set x"
proof -
  have "\<forall>x \<in> set (split_on d s). d \<notin> set x" for d s
    by (induction s) (auto split: list.splits)
  then show "x \<in> set (pathParts p) \<Longrightarrow> x \<noteq> [] \<and> CHR ''/'' \<notin> set x"
    by (auto simp: pathParts_def)
qed

lemma pathParts_join:
  "\<forall>x \<in> set xs. x \<noteq> [] \<and> CHR ''/'' \<notin> set x \<Longrightarrow> pathParts (join_with ''/'' xs) = xs"
proof (induction xs rule: induct_list012)
  case 1
  then show ?case by (simp add: pathParts_def)
next
  case (2 p)
  then show ?case by (simp add: pathParts_single)
next
  case (3 p q ps)
  then show ?case by (simp add: pathParts_append_slash pathParts_single)
qed

lemma foldl_resolveStep_plain:
  "''.'' \<notin> set xs \<Longrightarrow> ''..'' \<notin> set xs \<Longrightarrow> foldl resolveStep reached xs = reached @ xs"
  by (induction xs arbitrary: reached) (auto simp: resolveStep_def)

lemma foldl_resolveStep_up:
  "foldl resolveStep reached (replicate n ''..'') = take (length reached - n) reached"
proof (induction n arbitrary: reached)
  case 0
  then show ?case by simp
next
  case (Suc n)
  have "foldl resolveStep reached (replicate (Suc n) ''..'')
          = foldl resolveStep (butlast reached) (replicate n ''..'')"
    by (simp add: resolveStep_def)
  also have "\<dots> = take (length (butlast reached) - n) (butlast reached)"
    by (rule Suc.IH)
  also have "\<dots> = take (length reached - Suc n) reached"
    by (simp add: butlast_conv_take min_def)
  finally show ?case .
qed

lemma pathParts_getRelativePath:
  "\<exists>dot. (dot = [] \<or> dot = [''.''])
     \<and> pathParts (getRelativePath from to)
         = dot @ replicate (length (pathParts from)
                              - length (longest_common_prefix (pathParts from) (pathParts to))) ''..''
               @ drop (length (longest_common_prefix (pathParts from) (pathParts to))) (pathParts to)"
proof -
  let ?c = "length (longest_common_prefix (pathParts from) (pathParts to))"
  let ?rel = "replicate (length (pathParts from) - ?c) ''..'' @ drop ?c (pathParts to)"
  have segs: "\<forall>x \<in> set ?rel. x \<noteq> [] \<and> CHR ''/'' \<notin> set x"
    using pathParts_segment [of _ to] by (auto dest: in_set_dropD)
  have plain: "pathParts (join_with ''/'' ?rel) = ?rel"
    by (rule pathParts_join [OF segs])
  have dotted: "pathParts (''./'' @ join_with ''/'' ?rel) = [''.''] @ ?rel"
    using pathParts_append_slash [of "''.''" "join_with ''/'' ?rel"] plain
    by (simp add: pathParts_single)
  show ?thesis
  proof (cases "startsWith (join_with ''/'' ?rel) ''../''")
    case True
    then have "pathParts (getRelativePath from to) = [] @ ?rel"
      using plain by (simp add: getRelativePath_spec relativePath_spec_def Let_def)
    then show ?thesis by blast
  next
    case False
    then have "pathParts (getRelativePath from to) = [''.''] @ ?rel"
      using dotted by (simp add: getRelativePath_spec relativePath_spec_def Let_def)
    then show ?thesis by blast
  qed
qed

lemma prefix_take: "prefix xs ys \<Longrightarrow> take (length xs) ys = xs"
  by (auto simp: prefix_def)

lemma prefix_drop: "prefix xs ys \<Longrightarrow> ys = xs @ drop (length xs) ys"
  by (auto simp: prefix_def)

lemma longest_common_prefix_append: "longest_common_prefix xs (xs @ ys) = xs"
  by (induction xs) auto

lemma resolve_beyond_common:
  assumes "''.'' \<notin> set (sourceBeyondCommon from to)"
    and "''..'' \<notin> set (sourceBeyondCommon from to)"
  shows "resolveAgainst from (getRelativePath from to) = resolveSegments (pathParts to)"
proof -
  let ?fs = "pathParts from" and ?ts = "pathParts to"
  let ?common = "longest_common_prefix ?fs ?ts"
  let ?beyond = "drop (length ?common) ?fs"
  let ?down = "drop (length ?common) ?ts"
  let ?reached = "foldl resolveStep [] ?common"
  from assms have beyond: "''.'' \<notin> set ?beyond" "''..'' \<notin> set ?beyond"
    by (simp_all add: sourceBeyondCommon_def)
  have pf: "prefix ?common ?fs" and pt: "prefix ?common ?ts"
    by (rule longest_common_prefix_prefix1, rule longest_common_prefix_prefix2)
  from pf have fs: "?fs = ?common @ ?beyond"
    by (rule prefix_drop)
  from pt have ts: "?ts = ?common @ ?down"
    by (rule prefix_drop)
  have ups: "length ?fs - length ?common = length ?beyond"
    by simp
  obtain dot where dot: "dot = [] \<or> dot = [''.'']"
    and rel: "pathParts (getRelativePath from to)
                = dot @ replicate (length ?fs - length ?common) ''..'' @ ?down"
    using pathParts_getRelativePath [of "from" to] by blast
  have "foldl resolveStep [] ?fs = foldl resolveStep ?reached ?beyond"
    by (subst fs) simp
  also have "\<dots> = ?reached @ ?beyond"
    using beyond by (rule foldl_resolveStep_plain)
  finally have source: "foldl resolveStep [] ?fs = ?reached @ ?beyond" .
  have "resolveAgainst from (getRelativePath from to)
          = foldl resolveStep (foldl resolveStep (foldl resolveStep (foldl resolveStep [] ?fs) dot)
              (replicate (length ?beyond) ''..'')) ?down"
    by (simp add: resolveAgainst_def resolveSegments_def rel)
  also have "foldl resolveStep (foldl resolveStep [] ?fs) dot = ?reached @ ?beyond"
    unfolding source using dot by (auto simp: resolveStep_def)
  also have "foldl resolveStep (?reached @ ?beyond) (replicate (length ?beyond) ''..'') = ?reached"
    by (simp add: foldl_resolveStep_up)
  finally have lhs: "resolveAgainst from (getRelativePath from to)
                       = foldl resolveStep ?reached ?down" .
  have "resolveSegments ?ts = foldl resolveStep ?reached ?down"
    by (subst ts) (simp add: resolveSegments_def)
  with lhs show ?thesis by simp
qed

lemma sourceBeyondCommon_prefix:
  "prefix (pathParts from) (pathParts to) \<Longrightarrow> sourceBeyondCommon from to = []"
proof -
  assume "prefix (pathParts from) (pathParts to)"
  then obtain rest where "pathParts to = pathParts from @ rest"
    by (auto simp: prefix_def)
  then show ?thesis
    by (simp add: sourceBeyondCommon_def longest_common_prefix_append)
qed

lemma resolveSegments_plain: "noDotSegments p \<Longrightarrow> resolveSegments (pathParts p) = pathParts p"
  by (simp add: noDotSegments_def resolveSegments_def foldl_resolveStep_plain)

lemma getRelativePath_same_directory:
  assumes "dir = [] \<or> endsWith dir ''/''" and "CHR ''/'' \<notin> set base"
  shows "getRelativePath dir (dir @ base) = ''./'' @ base"
proof -
  have parts: "pathParts (dir @ base) = pathParts dir @ pathParts base"
  proof (cases "dir = []")
    case True
    then show ?thesis by (simp add: pathParts_def)
  next
    case False
    with assms(1) obtain q where q: "dir = q @ ''/''"
      by (auto simp: endsWith_iff)
    have "pathParts (q @ ''/'') = pathParts q"
      using pathParts_append_slash [of q "[]"] by (simp add: pathParts_def)
    then show ?thesis
      using pathParts_append_slash [of q base] by (simp add: q)
  qed
  have common: "longest_common_prefix (pathParts dir) (pathParts dir @ pathParts base) = pathParts dir"
    by (rule longest_common_prefix_append)
  have joined: "join_with ''/'' (pathParts base) = base"
    using assms(2) by (simp add: pathParts_single)
  have "\<not> startsWith base ''../''"
    using assms(2) by (auto simp: startsWith_iff)
  then show ?thesis
    by (simp add: getRelativePath_spec relativePath_spec_def Let_def parts common joined)
qed

text \<open>
  C6, as amended.  \<open>getRelativePath\<close> computes the relative path of the specification: one
  \<open>..\<close> for every source segment beyond the longest common prefix of the segments, then
  the target segments beyond it, with \<open>./\<close> in front unless the result starts with \<open>../\<close>.
  A file in the source directory itself gets \<open>./\<close> and its name, and the path from \<open>a/b/\<close>
  to \<open>a/c/d\<close> is \<open>../c/d\<close>.  When none of the source segments beyond the common prefix is
  \<open>.\<close> or \<open>..\<close>, the computed path resolved against the source directory reaches the place
  that the target names; when the target has no such segment either, that place is the
  target as written.  That is so in particular whenever the segments of the source are the
  first segments of the target.
\<close>

theorem getRelativePath_segments:
  "getRelativePath from to = relativePath_spec from to
   \<and> ((dir = [] \<or> endsWith dir ''/'') \<and> CHR ''/'' \<notin> set base
        \<longrightarrow> getRelativePath dir (dir @ base) = ''./'' @ base)
   \<and> getRelativePath ''a/b/'' ''a/c/d'' = ''../c/d''
   \<and> (''.'' \<notin> set (sourceBeyondCommon from to) \<and> ''..'' \<notin> set (sourceBeyondCommon from to)
        \<longrightarrow> resolveAgainst from (getRelativePath from to) = resolveSegments (pathParts to))
   \<and> (''.'' \<notin> set (sourceBeyondCommon from to) \<and> ''..'' \<notin> set (sourceBeyondCommon from to)
        \<and> noDotSegments to
        \<longrightarrow> resolveAgainst from (getRelativePath from to) = pathParts to)
   \<and> (prefix (pathParts from) (pathParts to)
        \<longrightarrow> resolveAgainst from (getRelativePath from to) = resolveSegments (pathParts to))"
proof (intro conjI impI)
  show "getRelativePath from to = relativePath_spec from to"
    by (rule getRelativePath_spec)
next
  assume "(dir = [] \<or> endsWith dir ''/'') \<and> CHR ''/'' \<notin> set base"
  then show "getRelativePath dir (dir @ base) = ''./'' @ base"
    using getRelativePath_same_directory [of dir base] by blast
next
  show "getRelativePath ''a/b/'' ''a/c/d'' = ''../c/d''"
    by code_simp
next
  assume "''.'' \<notin> set (sourceBeyondCommon from to) \<and> ''..'' \<notin> set (sourceBeyondCommon from to)"
  then show "resolveAgainst from (getRelativePath from to) = resolveSegments (pathParts to)"
    by (simp add: resolve_beyond_common)
next
  assume "''.'' \<notin> set (sourceBeyondCommon from to) \<and> ''..'' \<notin> set (sourceBeyondCommon from to)
          \<and> noDotSegments to"
  then show "resolveAgainst from (getRelativePath from to) = pathParts to"
    by (simp add: resolve_beyond_common resolveSegments_plain)
next
  assume "prefix (pathParts from) (pathParts to)"
  then show "resolveAgainst from (getRelativePath from to) = resolveSegments (pathParts to)"
    by (simp add: resolve_beyond_common sourceBeyondCommon_prefix)
qed

text \<open>From \<open>src/\<close> and from \<open>src/app/\<close> to a handler file, to a file of \<open>src/app/\<close> itself, and from
  \<open>src/./\<close> to a handler file below it.\<close>

theorem getRelativePath_segments_witness:
  "getRelativePath ''src/'' ''src/users/handlers/foo.handler'' = ''./users/handlers/foo.handler''
   \<and> getRelativePath ''src/app/'' ''src/app/main'' = ''./main''
   \<and> resolveAgainst ''src/app/'' (getRelativePath ''src/app/'' ''src/users/handlers/foo.handler'')
       = [''src'', ''users'', ''handlers'', ''foo.handler'']
   \<and> getRelativePath ''src/./'' ''src/./users/handlers/foo.handler'' = ''./users/handlers/foo.handler''
   \<and> resolveAgainst ''src/./'' (getRelativePath ''src/./'' ''src/./users/handlers/foo.handler'')
       = [''src'', ''users'', ''handlers'', ''foo.handler'']"
proof -
  have a: "''.'' \<notin> set (sourceBeyondCommon ''src/app/'' ''src/users/handlers/foo.handler'')
           \<and> ''..'' \<notin> set (sourceBeyondCommon ''src/app/'' ''src/users/handlers/foo.handler'')
           \<and> noDotSegments ''src/users/handlers/foo.handler''"
    by code_simp
  have b: "(''src/app/'' = [] \<or> endsWith ''src/app/'' ''/'') \<and> CHR ''/'' \<notin> set ''main''"
    by code_simp
  have c: "pathParts ''src/users/handlers/foo.handler'' = [''src'', ''users'', ''handlers'', ''foo.handler'']"
    by code_simp
  have d: "relativePath_spec ''src/'' ''src/users/handlers/foo.handler'' = ''./users/handlers/foo.handler''"
    by code_simp
  have e: "prefix (pathParts ''src/./'') (pathParts ''src/./users/handlers/foo.handler'')"
    by code_simp
  have f: "resolveSegments (pathParts ''src/./users/handlers/foo.handler'')
             = [''src'', ''users'', ''handlers'', ''foo.handler'']"
    by code_simp
  have g: "relativePath_spec ''src/./'' ''src/./users/handlers/foo.handler''
             = ''./users/handlers/foo.handler''"
    by code_simp
  note here = getRelativePath_segments
         [of "''src/app/''" "''src/users/handlers/foo.handler''" "''src/app/''" "''main''"]
  note dotted = getRelativePath_segments
         [of "''src/./''" "''src/./users/handlers/foo.handler''"]
  have r1: "getRelativePath ''src/'' ''src/users/handlers/foo.handler''
              = relativePath_spec ''src/'' ''src/users/handlers/foo.handler''"
    using getRelativePath_segments [of "''src/''" "''src/users/handlers/foo.handler''"] by blast
  have r2: "getRelativePath ''src/app/'' (''src/app/'' @ ''main'') = ''./'' @ ''main''"
    using here b by blast
  have r3: "resolveAgainst ''src/app/'' (getRelativePath ''src/app/'' ''src/users/handlers/foo.handler'')
              = pathParts ''src/users/handlers/foo.handler''"
    using here a by blast
  have r4: "getRelativePath ''src/./'' ''src/./users/handlers/foo.handler''
              = relativePath_spec ''src/./'' ''src/./users/handlers/foo.handler''"
    using dotted by blast
  have r5: "resolveAgainst ''src/./'' (getRelativePath ''src/./'' ''src/./users/handlers/foo.handler'')
              = resolveSegments (pathParts ''src/./users/handlers/foo.handler'')"
    using dotted e by blast
  from r1 r2 r3 r4 r5 show ?thesis
    unfolding c d f g by simp
qed

text \<open>
  The claim as stated, for every source directory, fails when a source segment beyond the
  common prefix is \<open>.\<close>: from \<open>a/./\<close> to \<open>a/b\<close> the function writes \<open>..\<close> for that segment
  and returns \<open>../b\<close>, which resolved against \<open>a/./\<close> is \<open>b\<close> and not \<open>a/b\<close>.
\<close>

theorem getRelativePath_dot_segment_counterexample:
  "getRelativePath ''a/./'' ''a/b'' = ''../b''
   \<and> resolveAgainst ''a/./'' ''../b'' = [''b'']
   \<and> pathParts ''a/b'' = [''a'', ''b'']
   \<and> resolveAgainst ''a/./'' (getRelativePath ''a/./'' ''a/b'') \<noteq> resolveSegments (pathParts ''a/b'')
   \<and> resolveAgainst ''a/./'' (getRelativePath ''a/./'' ''a/b'') \<noteq> pathParts ''a/b''"
  by code_simp

subsection \<open>Regular expressions\<close>

text \<open>Whatever the matcher finds is a decomposition of the text, each part matched by its
  piece of the expression.\<close>

lemma strip_prefix_Some: "strip_prefix p s = Some r \<longleftrightarrow> s = p @ r"
  by (induction p s rule: strip_prefix.induct) auto

lemma star_greedy_sound:
  "r \<in> set (star_greedy P s) \<Longrightarrow> \<exists>m. s = m @ r \<and> list_all P m"
proof (induction s)
  case Nil
  then show ?case by simp
next
  case (Cons c cs)
  show ?case
  proof (cases "r = c # cs")
    case True
    then show ?thesis by simp
  next
    case False
    with Cons.prems have "P c" and "r \<in> set (star_greedy P cs)"
      by (auto split: if_splits)
    with Cons.IH obtain m where "cs = m @ r" "list_all P m" by blast
    with \<open>P c\<close> have "c # cs = (c # m) @ r \<and> list_all P (c # m)" by simp
    then show ?thesis by blast
  qed
qed

lemma star_lazy_sound:
  "r \<in> set (star_lazy P s) \<Longrightarrow> \<exists>m. s = m @ r \<and> list_all P m"
proof (induction s)
  case Nil
  then show ?case by simp
next
  case (Cons c cs)
  show ?case
  proof (cases "r = c # cs")
    case True
    then show ?thesis by simp
  next
    case False
    with Cons.prems have "P c" and "r \<in> set (star_lazy P cs)"
      by (auto split: if_splits)
    with Cons.IH obtain m where "cs = m @ r" "list_all P m" by blast
    with \<open>P c\<close> have "c # cs = (c # m) @ r \<and> list_all P (c # m)" by simp
    then show ?thesis by blast
  qed
qed

lemma rmatch_sound: "r \<in> set (rmatch re s) \<Longrightarrow> \<exists>m. s = m @ r \<and> re_matches re m"
proof (cases re)
  case (Lit p)
  assume "r \<in> set (rmatch re s)"
  with Lit have "strip_prefix p s = Some r"
    by (auto split: option.splits)
  with Lit show ?thesis by (simp add: strip_prefix_Some)
next
  case (Cls P)
  assume "r \<in> set (rmatch re s)"
  with Cls show ?thesis by (cases s) (auto split: if_splits)
next
  case (Star P)
  assume "r \<in> set (rmatch re s)"
  with Star show ?thesis using star_greedy_sound [of r P s] by simp
next
  case (Plus P)
  assume r: "r \<in> set (rmatch re s)"
  show ?thesis
  proof (cases s)
    case Nil
    with r Plus show ?thesis by simp
  next
    case (Cons c cs)
    with r Plus have "P c" and "r \<in> set (star_greedy P cs)"
      by (auto split: if_splits)
    then obtain m where "cs = m @ r" "list_all P m"
      using star_greedy_sound by blast
    with \<open>P c\<close> Cons Plus have "s = (c # m) @ r \<and> re_matches re (c # m)" by simp
    then show ?thesis by blast
  qed
next
  case (Opt P)
  assume "r \<in> set (rmatch re s)"
  with Opt show ?thesis by (cases s) (auto split: if_splits)
next
  case (LazyStar P)
  assume "r \<in> set (rmatch re s)"
  with LazyStar show ?thesis using star_lazy_sound [of r P s] by simp
qed

lemma match_parts_sound:
  "(ms, fin) \<in> set (match_parts rs s) \<Longrightarrow> s = concat ms @ fin \<and> list_all2 re_matches rs ms"
proof (induction rs arbitrary: s ms)
  case Nil
  then show ?case by simp
next
  case (Cons r rs)
  from Cons.prems obtain rest ms' where rest: "rest \<in> set (rmatch r s)"
      and tail: "(ms', fin) \<in> set (match_parts rs rest)"
      and ms: "ms = take (length s - length rest) s # ms'"
    by auto
  from rmatch_sound [OF rest] obtain m where m: "s = m @ rest" "re_matches r m" by blast
  from Cons.IH [OF tail] have ih: "rest = concat ms' @ fin" "list_all2 re_matches rs ms'"
    by simp_all
  from m(1) have "take (length s - length rest) s = m" by simp
  with ms m ih show ?case by simp
qed

lemma re_search_sound:
  "re_search rs s = Some (pre, ms, fin)
   \<Longrightarrow> s = pre @ concat ms @ fin \<and> list_all2 re_matches rs ms"
proof (induction s arbitrary: pre)
  case Nil
  then obtain rest where "match_parts rs [] = (ms, fin) # rest" and "pre = []"
    by (auto split: list.splits)
  then have "(ms, fin) \<in> set (match_parts rs [])" by simp
  from match_parts_sound [OF this] \<open>pre = []\<close> show ?case by simp
next
  case (Cons c cs)
  show ?case
  proof (cases "match_parts rs (c # cs)")
    case Nil
    with Cons.prems obtain pre' where "re_search rs cs = Some (pre', ms, fin)" "pre = c # pre'"
      by (auto split: option.splits)
    with Cons.IH show ?thesis by simp
  next
    case (Cons a list)
    with Cons.prems have "a = (ms, fin)" "pre = []"
      by (auto split: prod.splits)
    with Cons have "(ms, fin) \<in> set (match_parts rs (c # cs))" by simp
    from match_parts_sound [OF this] \<open>pre = []\<close> show ?thesis by simp
  qed
qed

subsection \<open>Registration insertion\<close>

lemma split_on_append_any:
  "split_on d (a @ b)
     = butlast (split_on d a) @ [last (split_on d a) @ hd (split_on d b)] @ tl (split_on d b)"
proof (induction a)
  case Nil
  then show ?case by (cases "split_on d b") simp_all
next
  case (Cons c a)
  show ?case
  proof (cases "c = d")
    case True
    with Cons show ?thesis by simp
  next
    case False
    obtain p ps where ps: "split_on d a = p # ps"
      by (cases "split_on d a") simp_all
    show ?thesis
    proof (cases ps)
      case Nil
      with ps False Cons show ?thesis by simp
    next
      case (Cons q qs)
      with ps False Cons.IH show ?thesis by simp
    qed
  qed
qed

lemma lines_of_prefix: "prefix (butlast (lines_of a)) (lines_of (a @ b))"
  unfolding lines_of_def by (subst split_on_append_any) simp

lemma lines_of_suffix: "suffix (tl (lines_of b)) (lines_of (a @ b))"
  unfolding lines_of_def by (subst split_on_append_any) (simp add: suffix_def)

lemma providersRegex_parts:
  assumes "list_all2 re_matches providersRegex ms"
  shows "\<exists>ws inner. ms = [''providers:'', ws, ''['', inner, '']'']"
proof -
  from assms obtain m0 ws m2 inner m4
    where "ms = [m0, ws, m2, inner, m4]" "m0 = ''providers:''" "m2 = ''[''" "m4 = '']''"
    by (auto simp: providersRegex_def list_all2_Cons1)
  then show ?thesis by blast
qed

lemma addProviderEntry_cases:
  "addProviderEntry content providerEntry name = content
   \<or> (\<exists>pre ws inner post.
         content = pre @ ''providers:'' @ ws @ ''['' @ inner @ '']'' @ post
       \<and> addProviderEntry content providerEntry name
           = pre @ ''providers: ['' @ str_trim inner
               @ (if str_trim inner \<noteq> [] \<and> \<not> endsWith (str_trim inner) '','' then '','' else [])
               @ ''\<newline>'' @ providerEntry @ ''\<newline>  ]'' @ post)"
proof (cases "re_search providersRegex content")
  case None
  then show ?thesis by (simp add: addProviderEntry_def replace_first_def)
next
  case (Some found)
  then obtain pre ms post where found: "re_search providersRegex content = Some (pre, ms, post)"
    by (cases found) auto
  from re_search_sound [OF found] have content: "content = pre @ concat ms @ post"
    and parts: "list_all2 re_matches providersRegex ms"
    by simp_all
  from providersRegex_parts [OF parts] obtain ws inner
    where ms: "ms = [''providers:'', ws, ''['', inner, '']'']"
    by blast
  show ?thesis
  proof (cases "str_includes inner (classify name @ ''Handler'')")
    case True
    with found ms content have "addProviderEntry content providerEntry name = content"
      by (simp add: addProviderEntry_def replace_first_def)
    then show ?thesis ..
  next
    case False
    with found ms have "addProviderEntry content providerEntry name
           = pre @ ''providers: ['' @ str_trim inner
               @ (if str_trim inner \<noteq> [] \<and> \<not> endsWith (str_trim inner) '','' then '','' else [])
               @ ''\<newline>'' @ providerEntry @ ''\<newline>  ]'' @ post"
      by (simp add: addProviderEntry_def replace_first_def Let_def)
    moreover from content ms
    have "content = pre @ ''providers:'' @ ws @ ''['' @ inner @ '']'' @ post"
      by simp
    ultimately show ?thesis by blast
  qed
qed

text \<open>The matcher finds every match (it is complete), it finds the leftmost one, and a lazy
  repetition before a closing character stops at the first such character.\<close>

lemma star_greedy_self: "s \<in> set (star_greedy P s)"
  by (cases s) auto

lemma star_greedy_complete: "list_all P m \<Longrightarrow> r \<in> set (star_greedy P (m @ r))"
  by (induction m) (auto simp: star_greedy_self)

lemma star_lazy_self: "s \<in> set (star_lazy P s)"
  by (cases s) auto

lemma star_lazy_complete: "list_all P m \<Longrightarrow> r \<in> set (star_lazy P (m @ r))"
  by (induction m) (auto simp: star_lazy_self)

lemma rmatch_complete: "re_matches re m \<Longrightarrow> r \<in> set (rmatch re (m @ r))"
proof (cases re)
  case (Lit p)
  assume "re_matches re m"
  with Lit have "strip_prefix p (m @ r) = Some r" by (simp add: strip_prefix_Some)
  with Lit show ?thesis by simp
next
  case (Cls P)
  assume "re_matches re m"
  with Cls show ?thesis by (auto split: list.splits)
next
  case (Star P)
  assume "re_matches re m"
  with Star show ?thesis by (simp add: star_greedy_complete)
next
  case (Plus P)
  assume "re_matches re m"
  with Plus show ?thesis by (cases m) (auto simp: star_greedy_complete)
next
  case (Opt P)
  assume "re_matches re m"
  with Opt show ?thesis by (cases r) (auto split: list.splits)
next
  case (LazyStar P)
  assume "re_matches re m"
  with LazyStar show ?thesis by (simp add: star_lazy_complete)
qed

lemma match_parts_complete:
  "list_all2 re_matches rs ms \<Longrightarrow> (ms, fin) \<in> set (match_parts rs (concat ms @ fin))"
proof (induction rs arbitrary: ms)
  case Nil
  then show ?case by simp
next
  case (Cons r rs)
  then obtain m ms' where ms: "ms = m # ms'" and m: "re_matches r m"
      and rest: "list_all2 re_matches rs ms'"
    by (auto simp: list_all2_Cons1)
  let ?rest = "concat ms' @ fin"
  from rmatch_complete [OF m] have "?rest \<in> set (rmatch r (m @ ?rest))" .
  moreover from Cons.IH [OF rest] have "(ms', fin) \<in> set (match_parts rs ?rest)" .
  moreover have "take (length (m @ ?rest) - length ?rest) (m @ ?rest) = m" by simp
  ultimately have "(ms, fin) \<in> set (match_parts (r # rs) (m @ ?rest))"
    unfolding ms match_parts.simps set_concat by force
  then show ?case by (simp add: ms)
qed

lemma re_search_None: "re_search rs s = None \<Longrightarrow> match_parts rs (drop k s) = []"
proof (induction s arbitrary: k)
  case Nil
  then show ?case by (auto split: list.splits)
next
  case (Cons c cs)
  from Cons.prems have here: "match_parts rs (c # cs) = []" and later: "re_search rs cs = None"
    by (auto split: list.splits option.splits)
  show ?case
  proof (cases k)
    case 0
    with here show ?thesis by simp
  next
    case (Suc j)
    with Cons.IH [OF later] show ?thesis by simp
  qed
qed

lemma re_search_leftmost:
  "re_search rs s = Some (pre, ms, fin) \<Longrightarrow> k < length pre \<Longrightarrow> match_parts rs (drop k s) = []"
proof (induction s arbitrary: k pre)
  case Nil
  then show ?case by (auto split: list.splits)
next
  case (Cons c cs)
  show ?case
  proof (cases "match_parts rs (c # cs)")
    case Nil
    with Cons.prems obtain pre' where later: "re_search rs cs = Some (pre', ms, fin)"
        and pre: "pre = c # pre'"
      by (auto split: option.splits)
    show ?thesis
    proof (cases k)
      case 0
      with Nil show ?thesis by simp
    next
      case (Suc j)
      with Cons.prems(2) pre have "j < length pre'" by simp
      from Cons.IH [OF later this] Suc show ?thesis by simp
    qed
  next
    case (Cons found others)
    with Cons.prems have "pre = []" by (auto split: prod.splits)
    with Cons.prems(2) show ?thesis by simp
  qed
qed

lemma concat_map_hd:
  "concat (map f xs) = y # ys \<Longrightarrow> \<exists>x \<in> set xs. \<exists>zs. f x = y # zs"
proof (induction xs)
  case Nil
  then show ?case by simp
next
  case (Cons x xs)
  then show ?case by (cases "f x") auto
qed

lemma star_lazy_length: "r \<in> set (star_lazy P s) \<Longrightarrow> length r \<le> length s"
  using star_lazy_sound [of r P s] by auto

lemma lazy_char_Cons:
  "match_parts [LazyStar P, Lit [x]] (c # cs)
     = (if c = x then [([[], [x]], cs)] else [])
       @ (if P c then map (\<lambda>(ms, fin). ((c # hd ms) # tl ms, fin))
                        (match_parts [LazyStar P, Lit [x]] cs)
          else [])"
proof -
  have shift: "map (\<lambda>(ms, fin). (take (length (c # cs) - length rest) (c # cs) # ms, fin)) found
               = map (\<lambda>(ms, fin). ((c # hd ms) # tl ms, fin))
                   (map (\<lambda>(ms, fin). (take (length cs - length rest) cs # ms, fin)) found)"
    if "rest \<in> set (star_lazy P cs)" for rest and found :: "(string list \<times> string) list"
  proof -
    from star_lazy_length [OF that] have "length (c # cs) - length rest = Suc (length cs - length rest)"
      by simp
    then show ?thesis by (simp add: case_prod_unfold)
  qed
  have later: "concat (map (\<lambda>rest. map (\<lambda>(ms, fin). (take (length (c # cs) - length rest) (c # cs) # ms, fin))
                                      (match_parts [Lit [x]] rest)) (star_lazy P cs))
               = map (\<lambda>(ms, fin). ((c # hd ms) # tl ms, fin)) (match_parts [LazyStar P, Lit [x]] cs)"
  proof -
    have "concat (map (\<lambda>rest. map (\<lambda>(ms, fin). (take (length (c # cs) - length rest) (c # cs) # ms, fin))
                                      (match_parts [Lit [x]] rest)) (star_lazy P cs))
          = concat (map (\<lambda>rest. map (\<lambda>(ms, fin). ((c # hd ms) # tl ms, fin))
                   (map (\<lambda>(ms, fin). (take (length cs - length rest) cs # ms, fin))
                      (match_parts [Lit [x]] rest))) (star_lazy P cs))"
      by (rule arg_cong [where f = concat], rule map_cong [OF refl], rule shift)
    also have "\<dots> = map (\<lambda>(ms, fin). ((c # hd ms) # tl ms, fin))
                       (match_parts [LazyStar P, Lit [x]] cs)"
      by (simp add: map_concat comp_def)
    finally show ?thesis .
  qed
  have here: "map (\<lambda>(ms, fin). (take (length (c # cs) - length (c # cs)) (c # cs) # ms, fin))
                (match_parts [Lit [x]] (c # cs))
              = (if c = x then [([[], [x]], cs)] else [])"
    by simp
  have "match_parts [LazyStar P, Lit [x]] (c # cs)
          = map (\<lambda>(ms, fin). (take (length (c # cs) - length (c # cs)) (c # cs) # ms, fin))
                (match_parts [Lit [x]] (c # cs))
            @ (if P c
               then concat (map (\<lambda>rest. map (\<lambda>(ms, fin). (take (length (c # cs) - length rest) (c # cs) # ms, fin))
                                      (match_parts [Lit [x]] rest)) (star_lazy P cs))
               else [])"
    by simp
  then show ?thesis unfolding here later .
qed

lemma lazy_char_first:
  "match_parts [LazyStar P, Lit [x]] s = (ms, fin) # others
   \<Longrightarrow> \<exists>inner. ms = [inner, [x]] \<and> x \<notin> set inner"
proof (induction s arbitrary: ms fin others)
  case Nil
  then show ?case by simp
next
  case (Cons c cs)
  show ?case
  proof (cases "c = x")
    case True
    with Cons.prems have "ms = [[], [x]]"
      unfolding lazy_char_Cons by simp
    then show ?thesis by simp
  next
    case False
    with Cons.prems have step: "P c"
        "map (\<lambda>(ms, fin). ((c # hd ms) # tl ms, fin)) (match_parts [LazyStar P, Lit [x]] cs)
           = (ms, fin) # others"
      unfolding lazy_char_Cons by (auto split: if_splits)
    then obtain ms' fin' others' where found: "match_parts [LazyStar P, Lit [x]] cs = (ms', fin') # others'"
        and ms: "ms = (c # hd ms') # tl ms'"
      by (cases "match_parts [LazyStar P, Lit [x]] cs") auto
    from Cons.IH [OF found] obtain inner where "ms' = [inner, [x]]" "x \<notin> set inner" by blast
    with ms False have "ms = [c # inner, [x]] \<and> x \<notin> set (c # inner)" by auto
    then show ?thesis by blast
  qed
qed

lemma lazy_char_first_after:
  "match_parts (rs @ [LazyStar P, Lit [x]]) s = (ms, fin) # others
   \<Longrightarrow> length ms = length rs + 2 \<and> x \<notin> set (ms ! length rs)"
proof (induction rs arbitrary: s ms fin others)
  case Nil
  with lazy_char_first [of P x s ms fin others] show ?case by auto
next
  case (Cons r rs)
  let ?tail = "rs @ [LazyStar P, Lit [x]]"
  from Cons.prems have "concat (map (\<lambda>rest. map (\<lambda>(ms, fin). (take (length s - length rest) s # ms, fin))
                                      (match_parts ?tail rest)) (rmatch r s)) = (ms, fin) # others"
    by simp
  from concat_map_hd [OF this] obtain rest zs
    where "map (\<lambda>(ms, fin). (take (length s - length rest) s # ms, fin)) (match_parts ?tail rest)
             = (ms, fin) # zs"
    by (elim bexE exE)
  then obtain ms' fin' others' where found: "match_parts ?tail rest = (ms', fin') # others'"
      and ms: "ms = take (length s - length rest) s # ms'"
    by (cases "match_parts ?tail rest") auto
  from Cons.IH [OF found] ms show ?case by simp
qed


lemma re_search_head:
  "re_search rs s = Some (pre, ms, fin)
   \<Longrightarrow> \<exists>others. match_parts rs (drop (length pre) s) = (ms, fin) # others"
proof (induction s arbitrary: pre)
  case Nil
  then show ?case by (auto split: list.splits)
next
  case (Cons c cs)
  show ?case
  proof (cases "match_parts rs (c # cs)")
    case Nil
    with Cons.prems obtain pre' where "re_search rs cs = Some (pre', ms, fin)" "pre = c # pre'"
      by (auto split: option.splits)
    with Cons.IH show ?thesis by simp
  next
    case (Cons found others)
    with Cons.prems have "pre = []" "found = (ms, fin)" by (auto split: prod.splits)
    with Cons show ?thesis by simp
  qed
qed

lemma run_unique:
  "list_all Q a \<Longrightarrow> list_all Q a' \<Longrightarrow> \<not> Q x \<Longrightarrow> a @ x # r = a' @ x # r' \<Longrightarrow> a = a' \<and> r = r'"
proof (induction a arbitrary: a')
  case Nil
  then show ?case by (cases a') auto
next
  case (Cons c a)
  then show ?case by (cases a') auto
qed

lemma providersArrayAt_matches:
  assumes "providersArrayAt content pre ws inner post"
  shows "match_parts providersRegex (drop (length pre) content) \<noteq> []"
proof -
  let ?ms = "[''providers:'', ws, ''['', inner, '']'']"
  from assms have "list_all2 re_matches providersRegex ?ms"
    by (simp add: providersArrayAt_def providersRegex_def anyChar_def list_all_iff)
  from match_parts_complete [OF this, of post]
  have "(?ms, post) \<in> set (match_parts providersRegex (concat ?ms @ post))" .
  moreover from assms have "drop (length pre) content = concat ?ms @ post"
    by (simp add: providersArrayAt_def)
  ultimately show ?thesis by auto
qed

lemma providers_not_found:
  "re_search providersRegex content = None \<Longrightarrow> \<not> providersArrayAt content pre ws inner post"
  using re_search_None [of providersRegex content "length pre"]
        providersArrayAt_matches [of content pre ws inner post]
  by auto

lemma providers_found:
  assumes "re_search providersRegex content = Some (pre, ms, post)"
  shows "\<exists>ws inner. ms = [''providers:'', ws, ''['', inner, '']'']
           \<and> providersArrayAt content pre ws inner post
           \<and> (\<forall>pre' ws' inner' post'. providersArrayAt content pre' ws' inner' post'
                  \<longrightarrow> length pre \<le> length pre')"
proof -
  from re_search_sound [OF assms] have content: "content = pre @ concat ms @ post"
    and parts: "list_all2 re_matches providersRegex ms"
    by simp_all
  from parts obtain ws inner where ms: "ms = [''providers:'', ws, ''['', inner, '']'']"
      and ws: "list_all isSpace ws"
    by (auto simp: providersRegex_def list_all2_Cons1)
  from re_search_head [OF assms] obtain others
    where "match_parts ([Lit ''providers:'', Star isSpace, Lit ''[''] @ [LazyStar anyChar, Lit '']''])
             (drop (length pre) content) = (ms, post) # others"
    by (auto simp: providersRegex_def)
  from lazy_char_first_after [OF this] ms have inner: "CHR '']'' \<notin> set inner"
    by simp
  have first: "length pre \<le> length pre'" if "providersArrayAt content pre' ws' inner' post'"
    for pre' ws' inner' post'
  proof (rule ccontr)
    assume "\<not> length pre \<le> length pre'"
    then have "length pre' < length pre" by simp
    from re_search_leftmost [OF assms this] providersArrayAt_matches [OF that]
    show False by simp
  qed
  from content ms ws inner have "providersArrayAt content pre ws inner post"
    by (simp add: providersArrayAt_def)
  with ms first show ?thesis by blast
qed

lemma providersArrayAt_unique:
  assumes "providersArrayAt content pre ws inner post"
    and "providersArrayAt content pre' ws' inner' post'"
    and "length pre = length pre'"
  shows "pre = pre' \<and> ws = ws' \<and> inner = inner' \<and> post = post'"
proof -
  from assms(1,2) have whole: "pre @ ''providers:'' @ ws @ ''['' @ inner @ '']'' @ post
      = pre' @ ''providers:'' @ ws' @ ''['' @ inner' @ '']'' @ post'"
    by (simp add: providersArrayAt_def)
  with assms(3) have pre: "pre = pre'"
    and rest: "ws @ CHR ''['' # (inner @ '']'' @ post) = ws' @ CHR ''['' # (inner' @ '']'' @ post')"
    by simp_all
  from assms(1,2) have "list_all isSpace ws" "list_all isSpace ws'"
    by (simp_all add: providersArrayAt_def)
  moreover have "\<not> isSpace CHR ''[''"
    by (simp add: isSpace_def)
  ultimately have ws: "ws = ws'"
    and after: "inner @ CHR '']'' # post = inner' @ CHR '']'' # post'"
    using run_unique [OF _ _ _ rest] by simp_all
  from assms(1,2) have "list_all (\<lambda>c. c \<noteq> CHR '']'') inner" "list_all (\<lambda>c. c \<noteq> CHR '']'') inner'"
    by (auto simp: providersArrayAt_def list_all_iff)
  from run_unique [OF this _ after] have "inner = inner' \<and> post = post'"
    by simp
  with pre ws show ?thesis by simp
qed

text \<open>
  C2, as amended.  When the content has no registration array that the pattern
  \<open>/providers:\s*\[([\s\S]*?)\]/\<close> matches, \<open>addProviderEntry\<close> returns the content as it is.
  Otherwise take the leftmost match: the marker, white space, the opening bracket and the
  contents up to the first closing bracket.  When the contents hold the handler's class
  name the content is returned as it is; when they do not, the matched text and nothing
  else is rewritten, to \<open>providers: [\<close>, the trimmed contents, a comma if they are not empty
  and lack one, the new entry on a line of its own and \<open>  ]\<close>.  The text before the marker
  and the text after the closing bracket stay, so the lines that end before the marker and
  the lines that start after the bracket are still there, in their order, at the start and
  at the end of the file; the lines that the array spans can be rewritten and merged.
\<close>

theorem addProviderEntry_rewrites_array_only:
  "((\<forall>pre ws inner post. \<not> providersArrayAt content pre ws inner post)
      \<longrightarrow> addProviderEntry content providerEntry name = content)
   \<and> (\<forall>pre ws inner post.
         providersArrayAt content pre ws inner post
         \<and> (\<forall>pre' ws' inner' post'. providersArrayAt content pre' ws' inner' post'
                \<longrightarrow> length pre \<le> length pre')
         \<longrightarrow> addProviderEntry content providerEntry name
               = (if str_includes inner (classify name @ ''Handler'') then content
                  else pre @ ''providers: ['' @ str_trim inner
                         @ (if str_trim inner \<noteq> [] \<and> \<not> endsWith (str_trim inner) '',''
                            then '','' else [])
                         @ ''\<newline>'' @ providerEntry @ ''\<newline>  ]'' @ post)
             \<and> prefix (butlast (lines_of pre)) (lines_of content)
             \<and> prefix (butlast (lines_of pre))
                  (lines_of (addProviderEntry content providerEntry name))
             \<and> suffix (tl (lines_of post)) (lines_of content)
             \<and> suffix (tl (lines_of post))
                  (lines_of (addProviderEntry content providerEntry name)))"
proof (intro conjI allI impI)
  assume none: "\<forall>pre ws inner post. \<not> providersArrayAt content pre ws inner post"
  have "re_search providersRegex content = None"
  proof (cases "re_search providersRegex content")
    case None
    then show ?thesis .
  next
    case (Some found)
    then obtain pre ms post where "re_search providersRegex content = Some (pre, ms, post)"
      by (cases found) auto
    from providers_found [OF this] none show ?thesis by blast
  qed
  then show "addProviderEntry content providerEntry name = content"
    by (simp add: addProviderEntry_def replace_first_def)
next
  fix pre ws inner post
  assume first: "providersArrayAt content pre ws inner post
         \<and> (\<forall>pre' ws' inner' post'. providersArrayAt content pre' ws' inner' post'
                \<longrightarrow> length pre \<le> length pre')"
  let ?rebuilt = "''providers: ['' @ str_trim inner
                         @ (if str_trim inner \<noteq> [] \<and> \<not> endsWith (str_trim inner) '',''
                            then '','' else [])
                         @ ''\<newline>'' @ providerEntry @ ''\<newline>  ]''"
  from first have content: "content = pre @ ''providers:'' @ ws @ ''['' @ inner @ '']'' @ post"
    by (simp add: providersArrayAt_def)
  from first providers_not_found [of content pre ws inner post]
  obtain pre0 ms post0 where found: "re_search providersRegex content = Some (pre0, ms, post0)"
    by (cases "re_search providersRegex content") auto
  from providers_found [OF found] obtain ws0 inner0
    where ms: "ms = [''providers:'', ws0, ''['', inner0, '']'']"
      and at0: "providersArrayAt content pre0 ws0 inner0 post0"
      and first0: "\<forall>pre' ws' inner' post'. providersArrayAt content pre' ws' inner' post'
                  \<longrightarrow> length pre0 \<le> length pre'"
    by blast
  from first have at: "providersArrayAt content pre ws inner post"
    and least: "\<forall>pre' ws' inner' post'. providersArrayAt content pre' ws' inner' post'
                  \<longrightarrow> length pre \<le> length pre'"
    by simp_all
  from least at0 have "length pre \<le> length pre0" by blast
  moreover from first0 at have "length pre0 \<le> length pre" by blast
  ultimately have "length pre = length pre0" by simp
  from providersArrayAt_unique [OF at at0 this]
  have same: "pre0 = pre" "ws0 = ws" "inner0 = inner" "post0 = post"
    by simp_all
  have result: "addProviderEntry content providerEntry name
               = (if str_includes inner (classify name @ ''Handler'') then content
                  else pre @ ?rebuilt @ post)"
    using found content
    by (simp add: addProviderEntry_def replace_first_def Let_def ms same)
  then show "addProviderEntry content providerEntry name
               = (if str_includes inner (classify name @ ''Handler'') then content
                  else pre @ ''providers: ['' @ str_trim inner
                         @ (if str_trim inner \<noteq> [] \<and> \<not> endsWith (str_trim inner) '',''
                            then '','' else [])
                         @ ''\<newline>'' @ providerEntry @ ''\<newline>  ]'' @ post)"
    by simp
  show "prefix (butlast (lines_of pre)) (lines_of content)"
    by (subst content) (rule lines_of_prefix)
  show "suffix (tl (lines_of post)) (lines_of content)"
    using lines_of_suffix [of post "pre @ ''providers:'' @ ws @ ''['' @ inner @ '']''"]
    by (subst content) simp
  show "prefix (butlast (lines_of pre)) (lines_of (addProviderEntry content providerEntry name))"
  proof (cases "str_includes inner (classify name @ ''Handler'')")
    case True
    with result have "addProviderEntry content providerEntry name
                        = pre @ (''providers:'' @ ws @ ''['' @ inner @ '']'' @ post)"
      using content by simp
    then show ?thesis by (simp only: lines_of_prefix)
  next
    case False
    with result have "addProviderEntry content providerEntry name = pre @ (?rebuilt @ post)"
      by simp
    then show ?thesis by (simp only: lines_of_prefix)
  qed
  show "suffix (tl (lines_of post)) (lines_of (addProviderEntry content providerEntry name))"
  proof (cases "str_includes inner (classify name @ ''Handler'')")
    case True
    with result have "addProviderEntry content providerEntry name
                        = (pre @ ''providers:'' @ ws @ ''['' @ inner @ '']'') @ post"
      using content by simp
    then show ?thesis by (simp only: lines_of_suffix)
  next
    case False
    with result have "addProviderEntry content providerEntry name = (pre @ ?rebuilt) @ post"
      by simp
    then show ?thesis by (simp only: lines_of_suffix)
  qed
qed

text \<open>A module with a one-entry array over three lines, and a module with no array.\<close>

theorem addProviderEntry_rewrites_array_only_witness:
  "addProviderEntry ''@Module({\<newline>  providers: [\<newline>    AHandler\<newline>  ],\<newline>})'' ''    BHandler,'' ''b''
     = ''@Module({\<newline>  '' @ ''providers: ['' @ ''AHandler'' @ '','' @ ''\<newline>'' @ ''    BHandler,''
         @ ''\<newline>  ]'' @ '',\<newline>})''
   \<and> prefix [''@Module({'']
        (lines_of (addProviderEntry ''@Module({\<newline>  providers: [\<newline>    AHandler\<newline>  ],\<newline>})''
                     ''    BHandler,'' ''b''))
   \<and> suffix [''})'']
        (lines_of (addProviderEntry ''@Module({\<newline>  providers: [\<newline>    AHandler\<newline>  ],\<newline>})''
                     ''    BHandler,'' ''b''))
   \<and> addProviderEntry ''export class AppModule {}'' ''    BHandler,'' ''b''
     = ''export class AppModule {}''"
proof -
  let ?content = "''@Module({\<newline>  providers: [\<newline>    AHandler\<newline>  ],\<newline>})''"
  have search: "re_search providersRegex ?content
      = Some (''@Module({\<newline>  '', [''providers:'', '' '', ''['', ''\<newline>    AHandler\<newline>  '', '']''], '',\<newline>})'')"
    by code_simp
  from providers_found [OF search]
  have first: "providersArrayAt ?content ''@Module({\<newline>  '' '' '' ''\<newline>    AHandler\<newline>  '' '',\<newline>})''
      \<and> (\<forall>pre' ws' inner' post'. providersArrayAt ?content pre' ws' inner' post'
             \<longrightarrow> length ''@Module({\<newline>  '' \<le> length pre')"
    by auto
  have known: "\<not> str_includes ''\<newline>    AHandler\<newline>  '' (classify ''b'' @ ''Handler'')"
    by code_simp
  have trimmed: "str_trim ''\<newline>    AHandler\<newline>  '' = ''AHandler''"
    by code_simp
  have comma: "\<not> endsWith ''AHandler'' '',''"
    by code_simp
  have before: "butlast (lines_of ''@Module({\<newline>  '') = [''@Module({'']"
    by code_simp
  have after: "tl (lines_of '',\<newline>})'') = [''})'']"
    by code_simp
  have none: "\<forall>pre ws inner post. \<not> providersArrayAt ''export class AppModule {}'' pre ws inner post"
  proof -
    have "re_search providersRegex ''export class AppModule {}'' = None"
      by code_simp
    then show ?thesis by (simp add: providers_not_found)
  qed
  note patched = mp [OF spec [OF spec [OF spec [OF spec [OF conjunct2
      [OF addProviderEntry_rewrites_array_only [of ?content "''    BHandler,''" "''b''"]]]]]] first]
  note untouched = mp [OF conjunct1
      [OF addProviderEntry_rewrites_array_only [of "''export class AppModule {}''" "''    BHandler,''" "''b''"]]
      none]
  have result: "addProviderEntry ?content ''    BHandler,'' ''b''
     = ''@Module({\<newline>  '' @ ''providers: ['' @ ''AHandler'' @ '','' @ ''\<newline>'' @ ''    BHandler,''
         @ ''\<newline>  ]'' @ '',\<newline>})''"
    using patched [THEN conjunct1]
    by (simp only: known if_False trimmed) (simp add: comma)
  note kept = patched [unfolded before after, THEN conjunct2, THEN conjunct2]
  from result kept [THEN conjunct1] kept [THEN conjunct2, THEN conjunct2] untouched
  show ?thesis by (intro conjI)
qed

text \<open>
  The claim as stated fails on the first module: the lines \<open>  providers: [\<close> and \<open>    AHandler\<close>
  are merged into \<open>  providers: [AHandler,\<close>, and neither is a line of the result.
\<close>

theorem addProviderEntry_lines_counterexample:
  "addProviderEntry ''@Module({\<newline>  providers: [\<newline>    AHandler\<newline>  ],\<newline>})'' ''    BHandler,'' ''b''
     = ''@Module({\<newline>  providers: [AHandler,\<newline>    BHandler,\<newline>  ],\<newline>})''
   \<and> lines_of ''@Module({\<newline>  providers: [\<newline>    AHandler\<newline>  ],\<newline>})''
     = [''@Module({'', ''  providers: ['', ''    AHandler'', ''  ],'', ''})'']
   \<and> lines_of (addProviderEntry ''@Module({\<newline>  providers: [\<newline>    AHandler\<newline>  ],\<newline>})''
                 ''    BHandler,'' ''b'')
     = [''@Module({'', ''  providers: [AHandler,'', ''    BHandler,'', ''  ],'', ''})'']
   \<and> ''  providers: ['' \<notin> set (lines_of (addProviderEntry
         ''@Module({\<newline>  providers: [\<newline>    AHandler\<newline>  ],\<newline>})'' ''    BHandler,'' ''b''))
   \<and> ''    AHandler'' \<notin> set (lines_of (addProviderEntry
         ''@Module({\<newline>  providers: [\<newline>    AHandler\<newline>  ],\<newline>})'' ''    BHandler,'' ''b''))"
  by code_simp

subsection \<open>The separator of the compiled command generator\<close>

text \<open>
  C4.  The claim holds for \<open>addProviderEntry\<close> of the TypeScript sources (lemma
  \<open>addProviderEntry_cases\<close>: the comma is added only when the trimmed contents are not empty
  and do not end in one).  The compiled command generator adds the comma whenever the
  contents are not empty: an array whose last entry has its trailing comma gets a second
  one.
\<close>

theorem dist_addProviderEntry_double_comma:
  "dist_addProviderEntry ''@Module({\<newline>  providers: [\<newline>    AHandler,\<newline>  ],\<newline>})''
     ''    BHandler,'' ''b''
     = ''@Module({\<newline>  providers: [AHandler,,\<newline>    BHandler,\<newline>  ],\<newline>})''
   \<and> addProviderEntry ''@Module({\<newline>  providers: [\<newline>    AHandler,\<newline>  ],\<newline>})''
     ''    BHandler,'' ''b''
     = ''@Module({\<newline>  providers: [AHandler,\<newline>    BHandler,\<newline>  ],\<newline>})''"
  by code_simp

subsection \<open>Import insertion\<close>

text \<open>What \<open>addImportStatement\<close> does in general: with no import statement the new line goes to
  the top; otherwise the first occurrence of the last statement's text is replaced, by the
  replacement text with its \<open>$\<close> patterns read.\<close>

lemma find_first_Some: "find_first s p = Some (pre, post) \<Longrightarrow> s = pre @ p @ post"
proof (induction s arbitrary: pre)
  case Nil
  then show ?case by (auto split: if_splits)
next
  case (Cons c cs)
  show ?case
  proof (cases "startsWith (c # cs) p")
    case True
    with Cons.prems have "pre = []" "post = drop (length p) (c # cs)" by auto
    moreover from True have "c # cs = p @ drop (length p) (c # cs)"
      unfolding startsWith_def by (metis append_take_drop_id)
    ultimately show ?thesis by simp
  next
    case False
    with Cons.prems obtain pre' where "find_first cs p = Some (pre', post)" "pre = c # pre'"
      by (auto split: option.splits)
    with Cons.IH show ?thesis by simp
  qed
qed

lemma find_first_complete: "find_first (a @ p @ b) p \<noteq> None"
proof (induction a)
  case Nil
  show ?case
  proof (cases "p @ b")
    case Nil
    then show ?thesis by simp
  next
    case (Cons c cs)
    then have "startsWith (c # cs) p"
      by (metis startsWith_iff)
    with Cons show ?thesis by simp
  qed
next
  case (Cons c a)
  then show ?case by (auto split: option.splits)
qed

lemma get_substitution_plain:
  "CHR ''$'' \<notin> set r \<Longrightarrow> get_substitution m pre post r = r"
  by (induction m pre post r rule: get_substitution.induct) auto

lemma str_includes_iff: "str_includes s p \<longleftrightarrow> (\<exists>a b. s = a @ p @ b)"
proof (induction s)
  case Nil
  then show ?case by auto
next
  case (Cons c cs)
  show ?case
  proof
    assume "str_includes (c # cs) p"
    then consider "startsWith (c # cs) p" | "str_includes cs p" by auto
    then show "\<exists>a b. c # cs = a @ p @ b"
    proof cases
      case 1
      then obtain b where "c # cs = [] @ p @ b" by (auto simp: startsWith_iff)
      then show ?thesis by blast
    next
      case 2
      with Cons.IH obtain a b where "cs = a @ p @ b" by blast
      then have "c # cs = (c # a) @ p @ b" by simp
      then show ?thesis by blast
    qed
  next
    assume "\<exists>a b. c # cs = a @ p @ b"
    then obtain a b where ab: "c # cs = a @ p @ b" by blast
    show "str_includes (c # cs) p"
    proof (cases a)
      case Nil
      with ab have "startsWith (c # cs) p" by (auto simp: startsWith_iff)
      then show ?thesis by simp
    next
      case (Cons x a')
      with ab have "cs = a' @ p @ b" by simp
      with Cons.IH have "str_includes cs p" by blast
      then show ?thesis by simp
    qed
  qed
qed

lemma match_all_substring:
  "m \<in> set (match_all rs skip s) \<Longrightarrow> \<exists>a b. s = a @ m @ b"
proof (induction s arbitrary: skip)
  case Nil
  then show ?case by (auto split: if_splits)
next
  case (Cons c cs)
  have later: "\<exists>a b. c # cs = a @ m @ b" if "m \<in> set (match_all rs k cs)" for k
  proof -
    from Cons.IH [OF that] obtain a b where "cs = a @ m @ b" by blast
    then have "c # cs = (c # a) @ m @ b" by simp
    then show ?thesis by blast
  qed
  show ?case
  proof (cases "0 < skip")
    case True
    with Cons.prems later show ?thesis by simp
  next
    case False
    show ?thesis
    proof (cases "match_parts rs (c # cs)")
      case Nil
      with False Cons.prems later show ?thesis by simp
    next
      case (Cons found others)
      obtain ms fin where found: "found = (ms, fin)" by (cases found)
      with Cons have "(ms, fin) \<in> set (match_parts rs (c # cs))" by simp
      from match_parts_sound [OF this] have whole: "c # cs = [] @ concat ms @ fin" by simp
      from False Cons found Cons.prems
      consider "m = concat ms" | "m \<in> set (match_all rs (length (concat ms) - 1) cs)"
        by auto
      then show ?thesis
      proof cases
        case 1
        with whole show ?thesis by blast
      next
        case 2
        then show ?thesis by (rule later)
      qed
    qed
  qed
qed

lemma addImportStatement_cases:
  "(match_all importRegex 0 content = []
      \<and> addImportStatement content importStatement = importStatement @ ''\<newline>'' @ content)
   \<or> (\<exists>pre post. content = pre @ last (match_all importRegex 0 content) @ post
         \<and> find_first content (last (match_all importRegex 0 content)) = Some (pre, post)
         \<and> addImportStatement content importStatement
             = pre @ get_substitution (last (match_all importRegex 0 content)) pre post
                       (last (match_all importRegex 0 content) @ ''\<newline>'' @ importStatement)
                 @ post)"
proof (cases "match_all importRegex 0 content = []")
  case True
  then show ?thesis by (simp add: addImportStatement_def)
next
  case False
  let ?lastImport = "last (match_all importRegex 0 content)"
  from False have "?lastImport \<in> set (match_all importRegex 0 content)" by simp
  from match_all_substring [OF this] obtain a b where "content = a @ ?lastImport @ b" by blast
  then have "find_first content ?lastImport \<noteq> None"
    using find_first_complete [of a ?lastImport b] by simp
  then obtain pre post where found: "find_first content ?lastImport = Some (pre, post)"
    by auto
  from find_first_Some [OF found] have "content = pre @ ?lastImport @ post" .
  moreover from False found have "addImportStatement content importStatement
             = pre @ get_substitution ?lastImport pre post
                       (?lastImport @ ''\<newline>'' @ importStatement) @ post"
    by (simp add: addImportStatement_def Let_def str_replace_def)
  ultimately show ?thesis using found by blast
qed

lemma addImportStatement_includes:
  assumes "CHR ''$'' \<notin> set content" and "CHR ''$'' \<notin> set importStatement"
  shows "str_includes (addImportStatement content importStatement) importStatement"
proof -
  from addImportStatement_cases [of content importStatement]
  consider "addImportStatement content importStatement = importStatement @ ''\<newline>'' @ content"
    | pre post where "content = pre @ last (match_all importRegex 0 content) @ post"
        "addImportStatement content importStatement
             = pre @ get_substitution (last (match_all importRegex 0 content)) pre post
                       (last (match_all importRegex 0 content) @ ''\<newline>'' @ importStatement)
                 @ post"
    by blast
  then show ?thesis
  proof cases
    case 1
    then have "addImportStatement content importStatement
                 = [] @ importStatement @ (''\<newline>'' @ content)" by simp
    then show ?thesis unfolding str_includes_iff by blast
  next
    case 2
    let ?lastImport = "last (match_all importRegex 0 content)"
    from 2(1) assms(1) have "CHR ''$'' \<notin> set ?lastImport"
      by (metis Un_iff set_append)
    with assms(2) have "CHR ''$'' \<notin> set (?lastImport @ ''\<newline>'' @ importStatement)"
      by simp
    from get_substitution_plain [OF this] 2(2)
    have "addImportStatement content importStatement
            = (pre @ ?lastImport @ ''\<newline>'') @ importStatement @ post"
      by simp
    then show ?thesis unfolding str_includes_iff by blast
  qed
qed

text \<open>
  C5.  \<open>addImportStatement\<close> takes the text of the last import statement and calls
  \<open>content.replace\<close> with that text as a string pattern.  Such a call replaces the first
  occurrence of the text, which is not the last statement when the same statement stands
  earlier in the file; and it reads \<open>$\<close> patterns in the replacement, so an import whose
  module name ends in \<open>$\<close> is followed by \<open>$'\<close> in the replacement and is rewritten with a copy
  of the rest of the file in it.
\<close>

theorem addImportStatement_first_occurrence:
  "addImportStatement
     ''import { A } from './a';\<newline>import { B } from './b';\<newline>import { A } from './a';\<newline>export class M {}''
     ''import { FooHandler } from './handlers/foo.handler';''
     = ''import { A } from './a';\<newline>import { FooHandler } from './handlers/foo.handler';\<newline>import { B } from './b';\<newline>import { A } from './a';\<newline>export class M {}''
   \<and> addImportStatement ''import x from 'a$';\<newline>export class M {}''
     ''import { FooHandler } from './handlers/foo.handler';''
     = ''import x from 'a\<newline>export class M {};\<newline>import { FooHandler } from './handlers/foo.handler';\<newline>export class M {}''"
  by code_simp

subsection \<open>A module file with no providers array\<close>

text \<open>\<open>updateModuleFile\<close> of \<open>command.ts\<close> raises for an unreadable file only, whatever the
  content.\<close>

lemma command_updateModuleFile_errors:
  assumes "command_updateModuleFile t name normalizedPath flat = Inl e"
  shows "\<exists>p. e = FailedToUpdateModule (CouldNotReadModule p)
             \<or> e = FailedToUpdateModule (FileDoesNotExist p)"
  using assms
  by (auto simp: command_updateModuleFile_def command_patchModuleContent_def tree_overwrite_def
                 Let_def
           split: option.splits sum.splits if_splits)

text \<open>
  C3.  On a module file with no providers array, \<open>updateModuleFile\<close> of \<open>command.ts\<close> (and of
  \<open>utils/helpers/index.ts\<close>, which has the same text and serves the query generator) adds
  the import line, registers nothing and returns normally.  \<open>updateModuleFile\<close> of
  \<open>utils/module-updater.ts\<close> raises the error on the same file.
\<close>

theorem command_updateModuleFile_no_providers_array:
  "command_updateModuleFile
     \<lparr>files = [(''src/app.module.ts'',
        ''import { Module } from '@nestjs/common';\<newline>\<newline>@Module({\<newline>  imports: [],\<newline>})\<newline>export class AppModule {}'')],
      noAccess = []\<rparr> ''foo'' ''src/users/'' False
     = Inr \<lparr>files = [(''src/app.module.ts'',
        ''import { Module } from '@nestjs/common';\<newline>import { FooHandler } from './users/handlers/foo.handler';\<newline>\<newline>@Module({\<newline>  imports: [],\<newline>})\<newline>export class AppModule {}'')],
      noAccess = []\<rparr>
   \<and> updateModuleFile
     \<lparr>files = [(''src/app.module.ts'',
        ''import { Module } from '@nestjs/common';\<newline>\<newline>@Module({\<newline>  imports: [],\<newline>})\<newline>export class AppModule {}'')],
      noAccess = []\<rparr> ''foo'' ''src/users/'' False
     = Inl (FailedToUpdateModule (NoProvidersArray ''src/app.module.ts''))"
  by code_simp

subsection \<open>Running the patch twice\<close>

text \<open>When neither the module file nor the class name nor the import path has a \<open>$\<close>, the
  file that a first run writes holds the import statement or the provider entry, and a
  second run returns at the guard.\<close>

lemma addProviderEntry_includes:
  "addProviderEntry content providerEntry name = content
   \<or> str_includes (addProviderEntry content providerEntry name) providerEntry"
proof (cases "addProviderEntry content providerEntry name = content")
  case True
  then show ?thesis ..
next
  case False
  with addProviderEntry_cases [of content providerEntry name]
  obtain pre inner post where
    "addProviderEntry content providerEntry name
           = pre @ ''providers: ['' @ str_trim inner
               @ (if str_trim inner \<noteq> [] \<and> \<not> endsWith (str_trim inner) '','' then '','' else [])
               @ ''\<newline>'' @ providerEntry @ ''\<newline>  ]'' @ post"
    by blast
  then have "addProviderEntry content providerEntry name
           = (pre @ ''providers: ['' @ str_trim inner
               @ (if str_trim inner \<noteq> [] \<and> \<not> endsWith (str_trim inner) '','' then '','' else [])
               @ ''\<newline>'') @ providerEntry @ (''\<newline>  ]'' @ post)"
    by simp
  then have "str_includes (addProviderEntry content providerEntry name) providerEntry"
    unfolding str_includes_iff by blast
  then show ?thesis ..
qed

lemma patchModuleContent_second_run:
  assumes "CHR ''$'' \<notin> set moduleContent"
    and "CHR ''$'' \<notin> set (classify name)"
    and "CHR ''$'' \<notin> set relativeImportPath"
    and "patchModuleContent modulePath moduleContent name relativeImportPath = Inr (Some updated)"
  shows "patchModuleContent modulePath updated name relativeImportPath = Inr None"
proof -
  let ?imp = "importStatementFor name relativeImportPath"
  let ?entry = "providerEntryFor name"
  let ?withImport = "addImportStatement moduleContent ?imp"
  from assms(2,3) have "CHR ''$'' \<notin> set ?imp"
    by (simp add: importStatementFor_def)
  from addImportStatement_includes [OF assms(1) this]
  have imp: "str_includes ?withImport ?imp" .
  from assms(4) have updated: "updated = addProviderEntry ?withImport ?entry name"
    by (auto simp: patchModuleContent_def Let_def split: if_splits)
  from addProviderEntry_includes [of ?withImport ?entry name] imp
  have "str_includes updated ?imp \<or> str_includes updated ?entry"
    unfolding updated by auto
  then show ?thesis
    by (simp add: patchModuleContent_def Let_def)
qed

text \<open>
  C1.  The name \<open>foo$$\<close> is its own dash-cased form and gives the class \<open>Foo$$Handler\<close>.  The
  module registers that class already, written otherwise than the generator writes it, and
  does not import it.  The first run adds an import through \<open>content.replace\<close>, which reads
  the \<open>$$\<close> of the replacement as one \<open>$\<close>; the second run finds neither the import
  statement nor the provider entry it looks for and adds the import again.
\<close>

theorem updateModuleFile_twice_differs:
  "dasherize ''foo$$'' = ''foo$$''
   \<and> updateModuleFile
     \<lparr>files = [(''src/app.module.ts'',
        ''import { Module } from '@nestjs/common';\<newline>@Module({ providers: [Foo$$Handler] })\<newline>export class AppModule {}'')],
      noAccess = []\<rparr> ''foo$$'' ''src/users/'' False
     = Inr \<lparr>files = [(''src/app.module.ts'',
        ''import { Module } from '@nestjs/common';\<newline>import { Foo$Handler } from './users/handlers/foo$.handler';\<newline>@Module({ providers: [Foo$$Handler] })\<newline>export class AppModule {}'')],
      noAccess = []\<rparr>
   \<and> updateModuleFile
     \<lparr>files = [(''src/app.module.ts'',
        ''import { Module } from '@nestjs/common';\<newline>import { Foo$Handler } from './users/handlers/foo$.handler';\<newline>@Module({ providers: [Foo$$Handler] })\<newline>export class AppModule {}'')],
      noAccess = []\<rparr> ''foo$$'' ''src/users/'' False
     = Inr \<lparr>files = [(''src/app.module.ts'',
        ''import { Module } from '@nestjs/common';\<newline>import { Foo$Handler } from './users/handlers/foo$.handler';\<newline>import { Foo$Handler } from './users/handlers/foo$.handler';\<newline>@Module({ providers: [Foo$$Handler] })\<newline>export class AppModule {}'')],
      noAccess = []\<rparr>"
  by code_simp

subsection \<open>End-to-end scenario of the command generator\<close>

lemma tree_create_Inr:
  "tree_create t p content = Inr t'
   \<longleftrightarrow> map_of (files t) p = None \<and> t' = t\<lparr>files := files t @ [(p, content)]\<rparr>"
  by (auto simp: tree_create_def)

lemma map_of_overwrite:
  "q \<noteq> p \<Longrightarrow> map_of (map (\<lambda>(k, c). if k = p then (k, content) else (k, c)) fs) q = map_of fs q"
  by (induction fs) auto

lemma map_fst_overwrite:
  "map fst (map (\<lambda>(k, c). if k = p then (k, content) else (k, c)) fs) = map fst fs"
  by (induction fs) auto

lemma tree_overwrite_Inr:
  assumes "tree_overwrite t p content = Inr t'"
  shows "map fst (files t') = map fst (files t)"
    and "q \<noteq> p \<Longrightarrow> tree_read t' q = tree_read t q"
  using assms
  by (auto simp: tree_overwrite_def tree_read_def map_fst_overwrite map_of_overwrite
           split: if_splits)

lemma command_updateModuleFile_Inr:
  assumes "command_updateModuleFile t name normalizedPath flat = Inr t'"
  shows "t' = t \<or> (\<exists>modulePath content. findModuleFile t normalizedPath = Some modulePath
                      \<and> tree_overwrite t modulePath content = Inr t')"
  using assms
  by (auto simp: command_updateModuleFile_def split: option.splits sum.splits if_splits)

lemma findModuleFile_in_root:
  assumes "getParentPath normalizedPath 1 = []"
    and "findModuleFile t normalizedPath = Some modulePath"
  shows "CHR ''/'' \<notin> set modulePath"
proof -
  from assms obtain subfiles where listing: "getDir_subfiles t [] = Some subfiles"
    and first: "filter (\<lambda>file. endsWith file ''.module.ts'') subfiles \<noteq> []"
      "modulePath = hd (filter (\<lambda>file. endsWith file ''.module.ts'') subfiles)"
    by (auto simp: findModuleFile_def Let_def hd_conv_nth split: option.splits if_splits)
  from first have "modulePath \<in> set subfiles"
    by (metis hd_in_set filter_is_subset subsetD)
  with listing show ?thesis
    by (auto simp: getDir_subfiles_def split: if_splits)
qed

lemma command_updateModuleFile_keeps:
  assumes "command_updateModuleFile t name normalizedPath flat = Inr t'"
    and "getParentPath normalizedPath 1 = []"
    and "CHR ''/'' \<in> set q"
  shows "map fst (files t') = map fst (files t) \<and> tree_read t' q = tree_read t q"
proof -
  from command_updateModuleFile_Inr [OF assms(1)]
  consider "t' = t"
    | modulePath content where "findModuleFile t normalizedPath = Some modulePath"
        "tree_overwrite t modulePath content = Inr t'"
    by blast
  then show ?thesis
  proof cases
    case 1
    then show ?thesis by simp
  next
    case 2
    from findModuleFile_in_root [OF assms(2) 2(1)] assms(3) have "q \<noteq> modulePath"
      by auto
    with tree_overwrite_Inr [OF 2(2)] show ?thesis by simp
  qed
qed

lemma created_two:
  assumes "tree_create t p1 c1 = Inr t1" and "tree_create t1 p2 c2 = Inr t2"
  shows "map fst (files t2) = map fst (files t) @ [p1, p2]"
    and "tree_read t2 p2 = Some c2"
    and "tree_read t p1 = None" and "tree_read t p2 = None"
  using assms by (auto simp: tree_create_Inr tree_read_def map_add_def split: if_splits option.splits)

lemma options_default:
  "normalizeOptions \<lparr>o_name = ''create user'', o_path = None, o_skipImport = None, o_flat = None\<rparr>
     = \<lparr>n_name = ''create-user'', n_normalizedPath = ''src/'', n_skipImport = False, n_flat = False\<rparr>"
  by code_simp

lemma options_flat:
  "normalizeOptions \<lparr>o_name = ''create user'', o_path = None, o_skipImport = None, o_flat = Some True\<rparr>
     = \<lparr>n_name = ''create-user'', n_normalizedPath = ''src/'', n_skipImport = False, n_flat = True\<rparr>"
  by code_simp

lemma parent_of_src: "getParentPath ''src/'' 1 = []"
  by code_simp


lemma handler_default:
  "processTemplate (str_replace TEMPLATES_HANDLER ''<%= importPath %>'' ''../impl/create-user.command'')
     ''create-user''
   = createUserHandlerText ''../impl/create-user.command''"
  by code_simp

lemma handler_flat:
  "processTemplate (str_replace TEMPLATES_HANDLER ''<%= importPath %>'' ''./create-user.command'')
     ''create-user''
   = createUserHandlerText ''./create-user.command''"
  by code_simp

lemma command_default_steps:
  "command \<lparr>o_name = ''create user'', o_path = None, o_skipImport = None, o_flat = None\<rparr> t
     = (case tree_create t ''src/impl/create-user.command.ts''
               (processTemplate TEMPLATES_COMMAND ''create-user'') of
          Inl e \<Rightarrow> Inl (FailedToGenerate e)
        | Inr t1 \<Rightarrow>
            (case tree_create t1 ''src/handlers/create-user.handler.ts'' (createUserHandlerText ''../impl/create-user.command'') of
               Inl e \<Rightarrow> Inl (FailedToGenerate e)
             | Inr t2 \<Rightarrow>
                 (case command_updateModuleFile t2 ''create-user'' ''src/'' False of
                    Inl e \<Rightarrow> Inl (FailedToGenerate e)
                  | Inr t3 \<Rightarrow> Inr t3)))"
  by (simp add: command_def options_default Let_def createCommandFiles_def handler_default
           split: sum.splits)

lemma command_flat_steps:
  "command \<lparr>o_name = ''create user'', o_path = None, o_skipImport = None, o_flat = Some True\<rparr> t
     = (case tree_create t ''src/create-user.command.ts''
               (processTemplate TEMPLATES_COMMAND ''create-user'') of
          Inl e \<Rightarrow> Inl (FailedToGenerate e)
        | Inr t1 \<Rightarrow>
            (case tree_create t1 ''src/create-user.handler.ts'' (createUserHandlerText ''./create-user.command'') of
               Inl e \<Rightarrow> Inl (FailedToGenerate e)
             | Inr t2 \<Rightarrow>
                 (case command_updateModuleFile t2 ''create-user'' ''src/'' True of
                    Inl e \<Rightarrow> Inl (FailedToGenerate e)
                  | Inr t3 \<Rightarrow> Inr t3)))"
  by (simp add: command_def options_flat Let_def createCommandFiles_def handler_flat
           split: sum.splits)

lemma three_steps:
  assumes "(case tree_create t p1 c1 of
              Inl e \<Rightarrow> Inl (FailedToGenerate e)
            | Inr t1 \<Rightarrow>
                (case tree_create t1 p2 c2 of
                   Inl e \<Rightarrow> Inl (FailedToGenerate e)
                 | Inr t2 \<Rightarrow>
                     (case command_updateModuleFile t2 name ''src/'' flat of
                        Inl e \<Rightarrow> Inl (FailedToGenerate e)
                      | Inr t3 \<Rightarrow> Inr t3))) = Inr t'"
    and "CHR ''/'' \<in> set p2"
  shows "map fst (files t') = map fst (files t) @ [p1, p2]
         \<and> tree_read t p1 = None \<and> tree_read t p2 = None \<and> tree_read t' p2 = Some c2"
proof -
  from assms(1) obtain t1 t2
    where c1: "tree_create t p1 c1 = Inr t1"
      and c2: "tree_create t1 p2 c2 = Inr t2"
      and upd: "command_updateModuleFile t2 name ''src/'' flat = Inr t'"
    by (auto split: sum.splits)
  note kept = command_updateModuleFile_keeps [OF upd parent_of_src assms(2)]
  from created_two [OF c1 c2] kept show ?thesis by simp
qed

text \<open>
  C8.  For the identifier \<open>create user\<close> and no other option, whenever the command generator
  succeeds the tree has exactly two files more, \<open>src/impl/create-user.command.ts\<close> and
  \<open>src/handlers/create-user.handler.ts\<close>, both new, and the handler file imports the command
  from \<open>../impl/create-user.command\<close>.  With \<open>flat\<close> set the two files are
  \<open>src/create-user.command.ts\<close> and \<open>src/create-user.handler.ts\<close>, and the handler imports from
  \<open>./create-user.command\<close>.
\<close>

theorem command_create_user:
  "(command \<lparr>o_name = ''create user'', o_path = None, o_skipImport = None, o_flat = None\<rparr> t = Inr t'
      \<longrightarrow> map fst (files t')
            = map fst (files t) @ [''src/impl/create-user.command.ts'', ''src/handlers/create-user.handler.ts'']
        \<and> tree_read t ''src/impl/create-user.command.ts'' = None
        \<and> tree_read t ''src/handlers/create-user.handler.ts'' = None
        \<and> tree_read t' ''src/handlers/create-user.handler.ts'' = Some (createUserHandlerText ''../impl/create-user.command''))
   \<and> (command \<lparr>o_name = ''create user'', o_path = None, o_skipImport = None, o_flat = Some True\<rparr> t = Inr t''
      \<longrightarrow> map fst (files t'')
            = map fst (files t) @ [''src/create-user.command.ts'', ''src/create-user.handler.ts'']
        \<and> tree_read t ''src/create-user.command.ts'' = None
        \<and> tree_read t ''src/create-user.handler.ts'' = None
        \<and> tree_read t'' ''src/create-user.handler.ts'' = Some (createUserHandlerText ''./create-user.command''))"
proof (intro conjI impI)
  assume run: "command \<lparr>o_name = ''create user'', o_path = None, o_skipImport = None, o_flat = None\<rparr> t = Inr t'"
  have slash: "CHR ''/'' \<in> set ''src/handlers/create-user.handler.ts''"
    by simp
  from three_steps [OF run [unfolded command_default_steps] slash]
  show "map fst (files t')
            = map fst (files t) @ [''src/impl/create-user.command.ts'', ''src/handlers/create-user.handler.ts'']"
    and "tree_read t ''src/impl/create-user.command.ts'' = None"
    and "tree_read t ''src/handlers/create-user.handler.ts'' = None"
    and "tree_read t' ''src/handlers/create-user.handler.ts'' = Some (createUserHandlerText ''../impl/create-user.command'')"
    by blast+
next
  assume run: "command \<lparr>o_name = ''create user'', o_path = None, o_skipImport = None, o_flat = Some True\<rparr> t = Inr t''"
  have slash: "CHR ''/'' \<in> set ''src/create-user.handler.ts''"
    by simp
  from three_steps [OF run [unfolded command_flat_steps] slash]
  show "map fst (files t'')
            = map fst (files t) @ [''src/create-user.command.ts'', ''src/create-user.handler.ts'']"
    and "tree_read t ''src/create-user.command.ts'' = None"
    and "tree_read t ''src/create-user.handler.ts'' = None"
    and "tree_read t'' ''src/create-user.handler.ts'' = Some (createUserHandlerText ''./create-user.command'')"
    by blast+
qed

lemma update_nothing_listed:
  assumes "CHR ''/'' \<in> set p1" and "CHR ''/'' \<in> set p2"
  shows "command_updateModuleFile \<lparr>files = [(p1, c1), (p2, c2)], noAccess = []\<rparr> name ''src/'' flat
     = Inr \<lparr>files = [(p1, c1), (p2, c2)], noAccess = []\<rparr>"
proof -
  have "getDir_subfiles \<lparr>files = [(p1, c1), (p2, c2)], noAccess = []\<rparr> [] = Some []"
    using assms by (simp add: getDir_subfiles_def)
  then have "findModuleFile \<lparr>files = [(p1, c1), (p2, c2)], noAccess = []\<rparr> ''src/'' = None"
    unfolding findModuleFile_def parent_of_src by simp
  then show ?thesis
    by (simp add: command_updateModuleFile_def)
qed

lemma command_on_empty_tree:
  "command \<lparr>o_name = ''create user'', o_path = None, o_skipImport = None, o_flat = None\<rparr> \<lparr>files = [], noAccess = []\<rparr>
     = Inr \<lparr>files = [(''src/impl/create-user.command.ts'',
                       processTemplate TEMPLATES_COMMAND ''create-user''),
                      (''src/handlers/create-user.handler.ts'', (createUserHandlerText ''../impl/create-user.command''))],
            noAccess = []\<rparr>"
    "command \<lparr>o_name = ''create user'', o_path = None, o_skipImport = None, o_flat = Some True\<rparr> \<lparr>files = [], noAccess = []\<rparr>
     = Inr \<lparr>files = [(''src/create-user.command.ts'',
                       processTemplate TEMPLATES_COMMAND ''create-user''),
                      (''src/create-user.handler.ts'', (createUserHandlerText ''./create-user.command''))],
            noAccess = []\<rparr>"
  by (simp_all add: command_default_steps command_flat_steps tree_create_def update_nothing_listed)

text \<open>On the empty tree the generator succeeds, in both layouts.\<close>

theorem command_create_user_witness:
  "command \<lparr>o_name = ''create user'', o_path = None, o_skipImport = None, o_flat = None\<rparr> \<lparr>files = [], noAccess = []\<rparr>
     = Inr \<lparr>files = [(''src/impl/create-user.command.ts'',
                       processTemplate TEMPLATES_COMMAND ''create-user''),
                      (''src/handlers/create-user.handler.ts'', (createUserHandlerText ''../impl/create-user.command''))],
            noAccess = []\<rparr>
   \<and> tree_read \<lparr>files = [(''src/impl/create-user.command.ts'',
                       processTemplate TEMPLATES_COMMAND ''create-user''),
                      (''src/handlers/create-user.handler.ts'', (createUserHandlerText ''../impl/create-user.command''))],
            noAccess = []\<rparr> ''src/handlers/create-user.handler.ts'' = Some (createUserHandlerText ''../impl/create-user.command'')
   \<and> command \<lparr>o_name = ''create user'', o_path = None, o_skipImport = None, o_flat = Some True\<rparr> \<lparr>files = [], noAccess = []\<rparr>
     = Inr \<lparr>files = [(''src/create-user.command.ts'',
                       processTemplate TEMPLATES_COMMAND ''create-user''),
                      (''src/create-user.handler.ts'', (createUserHandlerText ''./create-user.command''))],
            noAccess = []\<rparr>
   \<and> tree_read \<lparr>files = [(''src/create-user.command.ts'',
                       processTemplate TEMPLATES_COMMAND ''create-user''),
                      (''src/create-user.handler.ts'', (createUserHandlerText ''./create-user.command''))],
            noAccess = []\<rparr> ''src/create-user.handler.ts'' = Some (createUserHandlerText ''./create-user.command'')"
proof -
  note run = command_on_empty_tree
  note here = command_create_user
          [of "\<lparr>files = [], noAccess = []\<rparr>"
              "\<lparr>files = [(''src/impl/create-user.command.ts'',
                       processTemplate TEMPLATES_COMMAND ''create-user''),
                      (''src/handlers/create-user.handler.ts'', (createUserHandlerText ''../impl/create-user.command''))],
            noAccess = []\<rparr>"
              "\<lparr>files = [(''src/create-user.command.ts'',
                       processTemplate TEMPLATES_COMMAND ''create-user''),
                      (''src/create-user.handler.ts'', (createUserHandlerText ''./create-user.command''))],
            noAccess = []\<rparr>"]
  from mp [OF conjunct1 [OF here] run(1)] mp [OF conjunct2 [OF here] run(2)] run
  show ?thesis by simp
qed

end
